theory Spec2Isabelle
  imports Complex_Main
begin

section \<open>Python values that reach the pipeline\<close>

text \<open>
  The breathing logger \<^verbatim>\<open>a111_breathing_rasp_0902_v2.py\<close> reads a loosely typed result
  per sensor frame.  Floats are modelled as real numbers extended by the three non-finite
  values that the source tests for with \<^verbatim>\<open>math.isfinite\<close> and \<^verbatim>\<open>np.isfinite\<close>; rounding
  of finite floats is not modelled.
\<close>

datatype pyfloat = Fin real | PosInf | NegInf | NaN

text \<open>
  A value stored in the result: \<open>PNum v\<close> is any object on which \<^verbatim>\<open>float(x)\<close> returns
  \<open>v\<close> (an int, a float, a numpy scalar, a numeric string); \<open>PArr xs\<close> is a list, a tuple
  or an array of several numbers, which \<^verbatim>\<open>np.asarray(x, dtype=float)\<close> reads as the
  one-dimensional array \<open>xs\<close> and on which \<^verbatim>\<open>float(x)\<close> raises; \<open>PObj\<close> is any other
  object, on which both conversions raise.
\<close>

datatype pyval = PNone | PBool bool | PNum pyfloat | PArr "pyfloat list" | PObj

datatype pyres = NotDict | Dict "string \<Rightarrow> pyval option"

datatype error = AttributeError | TypeError | ValueError | IndexError | ZeroDivisionError

fun isfinite :: "pyfloat \<Rightarrow> bool" where
  "isfinite (Fin r) = True"
| "isfinite v = False"

fun py_float :: "pyval \<Rightarrow> error + pyfloat" where
  "py_float (PNum v) = Inr v"
| "py_float (PBool b) = Inr (Fin (if b then 1 else 0))"
| "py_float x = Inl TypeError"

fun isinstance_bool :: "pyval \<Rightarrow> bool" where
  "isinstance_bool (PBool b) = True"
| "isinstance_bool x = False"

definition safe_float :: "pyval \<Rightarrow> real option" where
  "safe_float x =
     (if isinstance_bool x then None
      else (case py_float x of
              Inl e \<Rightarrow> None
            | Inr v \<Rightarrow> (case v of Fin r \<Rightarrow> Some r | _ \<Rightarrow> None)))"

definition dict_get :: "(string \<Rightarrow> pyval option) \<Rightarrow> string \<Rightarrow> pyval" where
  "dict_get m k = (case m k of None \<Rightarrow> PNone | Some v \<Rightarrow> v)"

text \<open>\<^verbatim>\<open>res.get(k) if isinstance(res, dict) else None\<close>\<close>

fun get_if_dict :: "pyres \<Rightarrow> string \<Rightarrow> pyval" where
  "get_if_dict (Dict m) k = dict_get m k"
| "get_if_dict NotDict k = PNone"

text \<open>\<^verbatim>\<open>isinstance(res, dict) and res.get(k)\<close>\<close>

fun isdict_and_get :: "pyres \<Rightarrow> string \<Rightarrow> pyval" where
  "isdict_and_get (Dict m) k = dict_get m k"
| "isdict_and_get NotDict k = PBool False"

section \<open>Numeric extraction\<close>

definition hz_keys :: "string list" where
  "hz_keys = [''f_est'', ''f_dft_est'', ''breathing_rate_hz'', ''freq_hz'', ''f_hat'', ''resp_rate_hz'']"

definition bpm_keys :: "string list" where
  "bpm_keys = [''breathing_rate_bpm'', ''respiratory_rate_bpm'', ''bpm'']"

text \<open>The two \<^verbatim>\<open>for k in (...)\<close> loops of \<^verbatim>\<open>bpm_from_res\<close>.\<close>

fun hz_loop :: "(string \<Rightarrow> pyval option) \<Rightarrow> string list \<Rightarrow> real option" where
  "hz_loop m [] = None"
| "hz_loop m (k # ks) =
     (case safe_float (dict_get m k) of Some v \<Rightarrow> Some (v * 60) | None \<Rightarrow> hz_loop m ks)"

fun bpm_loop :: "(string \<Rightarrow> pyval option) \<Rightarrow> string list \<Rightarrow> real option" where
  "bpm_loop m [] = None"
| "bpm_loop m (k # ks) =
     (case safe_float (dict_get m k) of Some v \<Rightarrow> Some v | None \<Rightarrow> bpm_loop m ks)"

fun bpm_from_res :: "pyres \<Rightarrow> real option" where
  "bpm_from_res NotDict = None"
| "bpm_from_res (Dict m) =
     (case hz_loop m hz_keys of Some r \<Rightarrow> Some r | None \<Rightarrow> bpm_loop m bpm_keys)"

text \<open>
  \<^verbatim>\<open>norm_init_progress\<close> is an ordinary Python function, whose result could be \<^verbatim>\<open>None\<close>;
  the caller tests \<^verbatim>\<open>ip is None\<close>.  The result type keeps that possibility.
\<close>

definition norm_init_progress :: "pyres \<Rightarrow> real option" where
  "norm_init_progress res =
     (let raw = get_if_dict res ''init_progress'' in
      case safe_float raw of
        None \<Rightarrow> Some 1
      | Some ip \<Rightarrow> Some (if ip > 1 then ip / 100 else ip))"

text \<open>
  The reading of \<^verbatim>\<open>resolve_bpm\<close> in the specification: the first key of the hertz list
  whose value coerces decides, times sixty; otherwise the first such key of the bpm list.
\<close>

definition coercible :: "(string \<Rightarrow> pyval option) \<Rightarrow> string \<Rightarrow> bool" where
  "coercible m k = (safe_float (dict_get m k) \<noteq> None)"

definition resolve_bpm_spec :: "(string \<Rightarrow> pyval option) \<Rightarrow> real option" where
  "resolve_bpm_spec m =
     (case find (coercible m) hz_keys of
        Some k \<Rightarrow> map_option (\<lambda>v. v * 60) (safe_float (dict_get m k))
      | None \<Rightarrow>
          (case find (coercible m) bpm_keys of
             Some k \<Rightarrow> safe_float (dict_get m k)
           | None \<Rightarrow> None))"

section \<open>Quality estimator\<close>

text \<open>
  \<^verbatim>\<open>np.asarray(ps, dtype=float)\<close>.  A scalar becomes a zero-dimensional array with one
  element; the source never indexes it, because the size test fails first.
\<close>

fun np_asarray :: "pyval \<Rightarrow> error + pyfloat list" where
  "np_asarray (PArr xs) = Inr xs"
| "np_asarray (PNum v) = Inr [v]"
| "np_asarray (PBool b) = Inr [Fin (if b then 1 else 0)]"
| "np_asarray PNone = Inr [NaN]"
| "np_asarray PObj = Inl TypeError"

fun the_fin :: "pyfloat \<Rightarrow> real" where
  "the_fin (Fin r) = r"
| "the_fin v = 0"

text \<open>The elementwise test \<^verbatim>\<open>ps > 0\<close>.\<close>

fun pf_gt0 :: "pyfloat \<Rightarrow> bool" where
  "pf_gt0 (Fin r) = (r > 0)"
| "pf_gt0 PosInf = True"
| "pf_gt0 v = False"

text \<open>\<^verbatim>\<open>np.nanargmax\<close> on finite values: the first index that holds the maximum.\<close>

fun argmax_first :: "real list \<Rightarrow> nat" where
  "argmax_first [] = 0"
| "argmax_first [x] = 0"
| "argmax_first (x # xs) = (let j = argmax_first xs in if xs ! j \<le> x then 0 else Suc j)"

definition nanargmax :: "real list \<Rightarrow> error + nat" where
  "nanargmax xs = (if xs = [] then Inl ValueError else Inr (argmax_first xs))"

text \<open>\<^verbatim>\<open>mask[lo:hi] = False\<close> for \<open>0 \<le> lo\<close> and \<open>0 \<le> hi\<close>.\<close>

definition mask_clear :: "bool list \<Rightarrow> int \<Rightarrow> int \<Rightarrow> bool list" where
  "mask_clear bs lo hi =
     map (\<lambda>(i, b). if lo \<le> int i \<and> int i < hi then False else b) (zip [0..<length bs] bs)"

text \<open>Boolean indexing \<^verbatim>\<open>ps[mask]\<close>.\<close>

definition bool_index :: "'a list \<Rightarrow> bool list \<Rightarrow> 'a list" where
  "bool_index xs bs = map fst (filter snd (zip xs bs))"

text \<open>\<^verbatim>\<open>np.median\<close> of a non-empty array: the mean of the two middle values for an even size.\<close>

definition np_median :: "real list \<Rightarrow> real" where
  "np_median xs =
     (let s = sort xs; n = length s in
      if even n then (s ! (n div 2 - 1) + s ! (n div 2)) / 2 else s ! (n div 2))"

definition py_log10 :: "real \<Rightarrow> error + real" where
  "py_log10 x = (if x \<le> 0 then Inl ValueError else Inr (log 10 x))"

text \<open>
  The body of the \<^verbatim>\<open>try\<close> block that computes the custom SNR; \<open>Inl\<close> is an exception
  raised inside it.
\<close>

definition snr_body :: "pyval \<Rightarrow> error + real option" where
  "snr_body ps0 =
     (if ps0 = PNone then Inr None
      else
        (case np_asarray ps0 of
           Inl e \<Rightarrow> Inl e
         | Inr ps \<Rightarrow>
             if list_all isfinite ps \<and> length ps > 8 \<and> list_ex pf_gt0 ps then
               (let rs = map the_fin ps in
                case nanargmax rs of
                  Inl e \<Rightarrow> Inl e
                | Inr peak_i \<Rightarrow>
                    (let lo = max 0 (int peak_i - 2);
                         hi = min (int (length rs)) (int peak_i + 3);
                         mask = mask_clear (replicate (length rs) True) lo hi;
                         noise = filter (\<lambda>v. v > 0) (bool_index rs mask)
                     in if length noise > 0 then
                          (case py_log10 (rs ! peak_i / np_median noise) of
                             Inl e \<Rightarrow> Inl e
                           | Inr l \<Rightarrow> Inr (Some (10 * l)))
                        else Inr None))
             else Inr None))"

text \<open>\<^verbatim>\<open>try: ... except Exception: snr = None\<close>, then the fallback on the reported field.\<close>

definition estimate_snr :: "pyres \<Rightarrow> real option" where
  "estimate_snr res =
     (let ps = get_if_dict res ''power_spectrum'';
          snr = (case snr_body ps of Inl e \<Rightarrow> None | Inr s \<Rightarrow> s)
      in case snr of
           None \<Rightarrow> safe_float (isdict_and_get res ''snr'')
         | Some s \<Rightarrow> Some s)"

text \<open>
  The estimator as the specification words it: the spectrum qualifies when it has more
  than eight bins, all finite, one of them positive; the noise set is the positive values
  at the indices outside the window of two bins on each side of the peak.
\<close>

definition qualifies :: "pyfloat list \<Rightarrow> bool" where
  "qualifies ps = (length ps > 8 \<and> list_all isfinite ps \<and> list_ex pf_gt0 ps)"

definition noise_set :: "real list \<Rightarrow> real list" where
  "noise_set rs =
     (let p = argmax_first rs in
      filter (\<lambda>v. v > 0)
        (map (\<lambda>i. rs ! i) (filter (\<lambda>i. i + 2 < p \<or> p + 2 < i) [0..<length rs])))"

definition quality_spec :: "pyres \<Rightarrow> real option" where
  "quality_spec res =
     (let reported = safe_float (isdict_and_get res ''snr'') in
      case get_if_dict res ''power_spectrum'' of
        PArr ps \<Rightarrow>
          (let rs = map the_fin ps in
           if qualifies ps \<and> noise_set rs \<noteq> []
           then Some (10 * log 10 (rs ! argmax_first rs / np_median (noise_set rs)))
           else reported)
      | _ \<Rightarrow> reported)"

section \<open>Configuration and state\<close>

datatype smooth_method = Mean | Median

text \<open>The attributes that \<^verbatim>\<open>parse_args\<close> puts on the namespace, one per \<^verbatim>\<open>add_argument\<close>.\<close>

record args =
  host :: string
  r0 :: real
  r1 :: real
  rate :: real
  n_dft :: int
  f_low :: real
  f_high :: real
  snr_min :: real
  hold_last_for :: real
  smooth_window :: int
  smooth :: smooth_method
  prominence_min :: real
  max_step_bpm :: real
  max_ratio :: real
  debug :: bool
  out :: "string option"

definition default_args :: "string \<Rightarrow> args" where
  "default_args h =
     \<lparr>host = h, r0 = 0.40, r1 = 0.60, rate = 12, n_dft = 15, f_low = 0.12, f_high = 0.70,
      snr_min = 10, hold_last_for = 5, smooth_window = 5, smooth = Median,
      prominence_min = 1.6, max_step_bpm = 6, max_ratio = 1.5, debug = False, out = None\<rparr>"

datatype argval = AStr string | ANone | AReal real | AInt int | ABool bool | AChoice smooth_method

definition namespace :: "args \<Rightarrow> (string \<times> argval) list" where
  "namespace a =
     [(''host'', AStr (host a)), (''r0'', AReal (r0 a)), (''r1'', AReal (r1 a)),
      (''rate'', AReal (rate a)), (''n_dft'', AInt (n_dft a)), (''f_low'', AReal (f_low a)),
      (''f_high'', AReal (f_high a)), (''snr_min'', AReal (snr_min a)),
      (''hold_last_for'', AReal (hold_last_for a)), (''smooth_window'', AInt (smooth_window a)),
      (''smooth'', AChoice (smooth a)), (''prominence_min'', AReal (prominence_min a)),
      (''max_step_bpm'', AReal (max_step_bpm a)), (''max_ratio'', AReal (max_ratio a)),
      (''debug'', ABool (debug a)),
      (''out'', (case out a of None \<Rightarrow> ANone | Some p \<Rightarrow> AStr p))]"

definition getattr :: "(string \<times> argval) list \<Rightarrow> string \<Rightarrow> error + argval" where
  "getattr ns name = (case map_of ns name of None \<Rightarrow> Inl AttributeError | Some v \<Rightarrow> Inr v)"

fun truthy :: "argval \<Rightarrow> bool" where
  "truthy (AStr s) = (s \<noteq> [])"
| "truthy ANone = False"
| "truthy (AReal r) = (r \<noteq> 0)"
| "truthy (AInt i) = (i \<noteq> 0)"
| "truthy (ABool b) = b"
| "truthy (AChoice c) = True"

text \<open>
  The loop's variables: the deque with its \<^verbatim>\<open>maxlen\<close>, the smoothed value, the time of
  the last acceptance and the tick cursor.
\<close>

record state =
  q :: "real list"
  q_maxlen :: nat
  last_good_bpm :: "real option"
  last_good_t :: real
  next_tick :: int

definition init_state :: "args \<Rightarrow> real \<Rightarrow> error + state" where
  "init_state a t0 =
     (if smooth_window a < 0 then Inl ValueError
      else Inr \<lparr>q = [], q_maxlen = nat (smooth_window a), last_good_bpm = None,
                last_good_t = 0, next_tick = \<lfloor>t0\<rfloor> + 1\<rparr>)"

text \<open>\<^verbatim>\<open>deque.append\<close> with a \<^verbatim>\<open>maxlen\<close>: append, then drop the oldest when over capacity.\<close>

definition deque_append :: "nat \<Rightarrow> 'a list \<Rightarrow> 'a \<Rightarrow> 'a list" where
  "deque_append maxlen xs x = (let ys = xs @ [x] in if length ys > maxlen then tl ys else ys)"

section \<open>Validity gate\<close>

record frame_eval =
  e_ip :: "real option"
  e_raw_bpm :: "real option"
  e_snr :: "real option"
  e_valid :: bool

definition base_valid :: "args \<Rightarrow> real option \<Rightarrow> real option \<Rightarrow> real option \<Rightarrow> bool" where
  "base_valid a ip snr raw_bpm =
     ((case ip of None \<Rightarrow> True | Some v \<Rightarrow> v \<ge> 0.99) \<and>
      (case snr of None \<Rightarrow> True | Some v \<Rightarrow> v \<ge> snr_min a) \<and>
      (case raw_bpm of None \<Rightarrow> False | Some v \<Rightarrow> 60 * f_low a \<le> v \<and> v \<le> 60 * f_high a))"

text \<open>
  The names bound at module level.  \<^verbatim>\<open>import numpy as np\<close> stands inside \<^verbatim>\<open>main\<close>, in
  the loop's \<^verbatim>\<open>try\<close> block, so \<^verbatim>\<open>np\<close> is a local of \<^verbatim>\<open>main\<close> and is not among them.
\<close>

definition module_globals :: "string list" where
  "module_globals =
     [''__name__'', ''__doc__'', ''__package__'', ''__loader__'', ''__spec__'',
      ''__annotations__'', ''__builtins__'', ''__file__'', ''__cached__'', ''argparse'', ''math'', ''time'', ''warnings'', ''deque'', ''datetime'',
      ''Client'', ''IQServiceConfig'', ''sb'', ''safe_float'', ''bpm_from_res'',
      ''norm_init_progress'', ''main'']"

text \<open>The order \<^verbatim>\<open>np.sort\<close> uses: NaN after every number.\<close>

fun pf_le :: "pyfloat \<Rightarrow> pyfloat \<Rightarrow> bool" where
  "pf_le x NaN = True"
| "pf_le NaN y = False"
| "pf_le NegInf y = True"
| "pf_le x NegInf = False"
| "pf_le x PosInf = True"
| "pf_le PosInf y = False"
| "pf_le (Fin a) (Fin b) = (a \<le> b)"

fun pf_insert :: "pyfloat \<Rightarrow> pyfloat list \<Rightarrow> pyfloat list" where
  "pf_insert x [] = [x]"
| "pf_insert x (y # ys) = (if pf_le x y then x # y # ys else y # pf_insert x ys)"

fun np_sort :: "pyfloat list \<Rightarrow> pyfloat list" where
  "np_sort [] = []"
| "np_sort (x # xs) = pf_insert x (np_sort xs)"

text \<open>\<^verbatim>\<open>np.sort(ps[np.argpartition(ps, -3)[-3:]])\<close>: the three largest values, ascending.\<close>

definition top3 :: "pyval \<Rightarrow> error + pyfloat list" where
  "top3 ps =
     (case np_asarray ps of
        Inl e \<Rightarrow> Inl e
      | Inr xs \<Rightarrow> if length xs < 3 then Inl ValueError
                  else Inr (drop (length xs - 3) (np_sort xs)))"

fun pf_div :: "pyfloat \<Rightarrow> pyfloat \<Rightarrow> pyfloat" where
  "pf_div (Fin a) (Fin b) =
     (if b = 0 then (if a > 0 then PosInf else if a < 0 then NegInf else NaN) else Fin (a / b))"
| "pf_div (Fin a) PosInf = Fin 0"
| "pf_div (Fin a) NegInf = Fin 0"
| "pf_div PosInf (Fin b) = (if b \<ge> 0 then PosInf else NegInf)"
| "pf_div NegInf (Fin b) = (if b \<ge> 0 then NegInf else PosInf)"
| "pf_div x y = NaN"

fun pf_lt_real :: "pyfloat \<Rightarrow> real \<Rightarrow> bool" where
  "pf_lt_real (Fin a) p = (a < p)"
| "pf_lt_real NegInf p = True"
| "pf_lt_real x p = False"

definition prominence_low :: "args \<Rightarrow> pyfloat list \<Rightarrow> bool" where
  "prominence_low a tops =
     (length tops \<ge> 2 \<and> pf_gt0 (tops ! (length tops - 2)) \<and>
      pf_lt_real (pf_div (tops ! (length tops - 1)) (tops ! (length tops - 2))) (prominence_min a))"

text \<open>The prominence block with its guard \<^verbatim>\<open>valid and ps is not None and 'np' in globals()\<close>.\<close>

definition prominence_gate :: "args \<Rightarrow> bool \<Rightarrow> pyval \<Rightarrow> bool" where
  "prominence_gate a valid ps =
     (if valid \<and> ps \<noteq> PNone \<and> ''np'' \<in> set module_globals then
        (case top3 ps of
           Inl e \<Rightarrow> valid
         | Inr tops \<Rightarrow> if prominence_low a tops then False else valid)
      else valid)"

text \<open>
  The step block.  The three tests are joined by \<^verbatim>\<open>or\<close>, so \<^verbatim>\<open>1/args.max_ratio\<close> is
  evaluated only when the first two are false, and raises when the ratio is zero.
\<close>

definition step_exceeded :: "args \<Rightarrow> real \<Rightarrow> real \<Rightarrow> error + bool" where
  "step_exceeded a raw_bpm lg =
     (let r = raw_bpm / max (1 / 1000000) lg in
      if \<bar>raw_bpm - lg\<bar> > max_step_bpm a then Inr True
      else if r > max_ratio a then Inr True
      else if max_ratio a = 0 then Inl ZeroDivisionError
      else Inr (r < 1 / max_ratio a))"

definition step_gate :: "args \<Rightarrow> bool \<Rightarrow> real option \<Rightarrow> real option \<Rightarrow> error + bool" where
  "step_gate a valid raw_bpm lg =
     (if valid \<and> lg \<noteq> None then
        (case raw_bpm of
           None \<Rightarrow> Inl TypeError
         | Some raw \<Rightarrow>
             (case step_exceeded a raw (the lg) of
                Inl e \<Rightarrow> Inl e
              | Inr b \<Rightarrow> Inr (if b then False else valid)))
      else Inr valid)"

text \<open>Lines 115 to 166: the quantities of one frame and the decision on it.\<close>

definition evaluate :: "args \<Rightarrow> state \<Rightarrow> pyres \<Rightarrow> error + frame_eval" where
  "evaluate a st res =
     (let ip = norm_init_progress res;
          raw_bpm = bpm_from_res res;
          ps = get_if_dict res ''power_spectrum'';
          snr = estimate_snr res;
          valid = base_valid a ip snr raw_bpm;
          valid = prominence_gate a valid ps
      in case step_gate a valid raw_bpm (last_good_bpm st) of
           Inl e \<Rightarrow> Inl e
         | Inr v \<Rightarrow> Inr \<lparr>e_ip = ip, e_raw_bpm = raw_bpm, e_snr = snr, e_valid = v\<rparr>)"

section \<open>Smoothing\<close>

definition median_of :: "real list \<Rightarrow> error + real" where
  "median_of xs =
     (let s = sort xs; i = length xs div 2 in if i < length s then Inr (s ! i) else Inl IndexError)"

definition mean_of :: "real list \<Rightarrow> error + real" where
  "mean_of xs = (if length xs = 0 then Inl ZeroDivisionError else Inr (sum_list xs / real (length xs)))"

definition smoothed :: "args \<Rightarrow> real list \<Rightarrow> error + real" where
  "smoothed a xs = (if smooth a = Median then median_of xs else mean_of xs)"

text \<open>Lines 169 to 175.\<close>

definition update :: "args \<Rightarrow> state \<Rightarrow> frame_eval \<Rightarrow> real \<Rightarrow> error + state" where
  "update a st ev now =
     (if e_valid ev then
        (case e_raw_bpm ev of
           None \<Rightarrow> Inl TypeError
         | Some raw \<Rightarrow>
             (let q' = deque_append (q_maxlen st) (q st) raw in
              case smoothed a q' of
                Inl e \<Rightarrow> Inl e
              | Inr m \<Rightarrow> Inr (st\<lparr>q := q', last_good_bpm := Some m, last_good_t := now\<rparr>)))
      else Inr st)"

section \<open>Tick-aligned emitter\<close>

definition digit_char :: "nat \<Rightarrow> char" where
  "digit_char d = ''0123456789'' ! d"

fun show_nat :: "nat \<Rightarrow> string" where
  "show_nat n = (if n < 10 then [digit_char n] else show_nat (n div 10) @ [digit_char (n mod 10)])"

declare show_nat.simps [simp del]

definition show_int :: "int \<Rightarrow> string" where
  "show_int i = (if i < 0 then ''-'' @ show_nat (nat (- i)) else show_nat (nat i))"

definition round_half_even :: "real \<Rightarrow> nat" where
  "round_half_even x =
     (let f = nat \<lfloor>x\<rfloor>; d = x - of_int \<lfloor>x\<rfloor> in
      if d < 1 / 2 then f else if d > 1 / 2 then f + 1 else if even f then f else f + 1)"

text \<open>The format \<^verbatim>\<open>{x:.2f}\<close> of a finite value.\<close>

definition fmt2 :: "real \<Rightarrow> string" where
  "fmt2 x =
     (let n = round_half_even (\<bar>x\<bar> * 100) in
      (if x < 0 then ''-'' else []) @ show_nat (n div 100) @ ''.'' @
      [digit_char (n div 10 mod 10), digit_char (n mod 10)])"

fun join :: "string \<Rightarrow> string list \<Rightarrow> string" where
  "join sep [] = []"
| "join sep [x] = x"
| "join sep (x # xs) = x @ sep @ join sep xs"

record out_record =
  hms :: string
  unix_s :: int
  out_bpm :: string
  note_tokens :: "string list"

definition header :: string where
  "header = ''time_hms,unix_s,bpm,note''"

definition line :: "out_record \<Rightarrow> string" where
  "line r = hms r @ '','' @ show_int (unix_s r) @ '','' @ out_bpm r @ '','' @ join ''/'' (note_tokens r)"

definition held :: "args \<Rightarrow> state \<Rightarrow> real \<Rightarrow> bool" where
  "held a st now = (last_good_bpm st \<noteq> None \<and> now - last_good_t st \<le> hold_last_for a)"

definition in_band :: "args \<Rightarrow> real \<Rightarrow> bool" where
  "in_band a v = (60 * f_low a \<le> v \<and> v \<le> 60 * f_high a)"

definition debug_notes :: "args \<Rightarrow> pyres \<Rightarrow> string list" where
  "debug_notes a res =
     (if debug a then
        (let fe = safe_float (isdict_and_get res ''f_est'');
             fd = safe_float (isdict_and_get res ''f_dft_est'')
         in (case fe of None \<Rightarrow> [] | Some v \<Rightarrow> [''f_est='' @ fmt2 (v * 60)]) @
            (case fd of None \<Rightarrow> [] | Some v \<Rightarrow> [''f_dft='' @ fmt2 (v * 60)]))
      else [])"

text \<open>The body of the tick loop up to the \<^verbatim>\<open>print\<close>; \<open>t\<close> is what the wall clock shows.\<close>

definition make_record :: "args \<Rightarrow> state \<Rightarrow> frame_eval \<Rightarrow> pyres \<Rightarrow> real \<Rightarrow> string \<Rightarrow> out_record" where
  "make_record a st ev res now t =
     \<lparr>hms = t,
      unix_s = next_tick st,
      out_bpm = (if held a st now then (case last_good_bpm st of None \<Rightarrow> [] | Some v \<Rightarrow> fmt2 v) else []),
      note_tokens =
        (if held a st now then [''held=1''] else []) @
        (case e_snr ev of None \<Rightarrow> [] | Some v \<Rightarrow> [''snr='' @ fmt2 v]) @
        (case e_ip ev of None \<Rightarrow> [] | Some v \<Rightarrow> [''init='' @ fmt2 v]) @
        (case e_raw_bpm ev of
           None \<Rightarrow> []
         | Some v \<Rightarrow> if \<not> e_valid ev \<and> in_band a v then [''raw='' @ fmt2 v] else []) @
        debug_notes a res\<rparr>"

text \<open>
  \<^verbatim>\<open>while now >= next_tick\<close>: the records printed so far in this iteration are
  accumulated in \<open>printed\<close>; \<open>wall k\<close> is the time of day read for the \<open>k\<close>-th of them.
\<close>

function emit_loop ::
  "args \<Rightarrow> frame_eval \<Rightarrow> pyres \<Rightarrow> real \<Rightarrow> (nat \<Rightarrow> string) \<Rightarrow> state \<Rightarrow> out_record list
   \<Rightarrow> state \<times> out_record list" where
  "emit_loop a ev res now wall st printed =
     (if now \<ge> of_int (next_tick st) then
        emit_loop a ev res now wall (st\<lparr>next_tick := next_tick st + 1\<rparr>)
          (printed @ [make_record a st ev res now (wall (length printed))])
      else (st, printed))"
  by pat_completeness auto
termination
proof (relation "measure (\<lambda>(a, ev, res, now, wall, st, printed). nat (\<lfloor>now\<rfloor> + 1 - next_tick st))")
  show "wf (measure (\<lambda>(a, ev, res, now, wall, st, printed). nat (\<lfloor>now\<rfloor> + 1 - next_tick st)))"
    by simp
next
  fix a :: args and ev :: frame_eval and res :: pyres and now :: real
    and wall :: "nat \<Rightarrow> string" and st :: state and printed :: "out_record list"
  assume "of_int (next_tick st) \<le> now"
  then have "next_tick st \<le> \<lfloor>now\<rfloor>"
    by (simp add: le_floor_iff)
  then show "((a, ev, res, now, wall, st\<lparr>next_tick := next_tick st + 1\<rparr>,
               printed @ [make_record a st ev res now (wall (length printed))]),
              (a, ev, res, now, wall, st, printed))
             \<in> measure (\<lambda>(a, ev, res, now, wall, st, printed). nat (\<lfloor>now\<rfloor> + 1 - next_tick st))"
    by simp
qed

declare emit_loop.simps [simp del]

section \<open>The frame loop and the program\<close>

text \<open>
  One pass of \<^verbatim>\<open>while True\<close>: the frame's result, the reading of \<^verbatim>\<open>time.time()\<close> and
  the wall clock.  An exception ends the pass with \<open>Inl\<close>.
\<close>

type_synonym frame_in = "pyres \<times> real \<times> (nat \<Rightarrow> string)"

definition iteration :: "args \<Rightarrow> state \<Rightarrow> frame_in \<Rightarrow> error + (state \<times> frame_eval \<times> out_record list)" where
  "iteration a st inp =
     (case inp of (res, now, wall) \<Rightarrow>
        (case evaluate a st res of
           Inl e \<Rightarrow> Inl e
         | Inr ev \<Rightarrow>
             (case update a st ev now of
                Inl e \<Rightarrow> Inl e
              | Inr st1 \<Rightarrow>
                  (case emit_loop a ev res now wall st1 [] of
                     (st2, recs) \<Rightarrow> Inr (st2, ev, recs)))))"

text \<open>
  The passes over a finite sequence of frames: what each pass decided and printed, and
  the state at the end or the exception that ended the loop.
\<close>

fun run :: "args \<Rightarrow> state \<Rightarrow> frame_in list \<Rightarrow> (frame_eval \<times> out_record list) list \<times> (error + state)" where
  "run a st [] = ([], Inr st)"
| "run a st (inp # inps) =
     (case iteration a st inp of
        Inl e \<Rightarrow> ([], Inl e)
      | Inr (st', ev, recs) \<Rightarrow>
          (case run a st' inps of (tr, r) \<Rightarrow> ((ev, recs) # tr, r)))"

definition records :: "(frame_eval \<times> out_record list) list \<Rightarrow> out_record list" where
  "records tr = concat (map snd tr)"

record outcome =
  stdout :: "string list"
  csv :: "string list option"
  raised :: "error option"

text \<open>
  \<^verbatim>\<open>main\<close> from the header line on (the sensor session and the debug print of the keys are
  left out): the header on standard output, the test of \<^verbatim>\<open>args.out_csv\<close>, the deque, the
  loop.  \<open>csv\<close> is what was written to the secondary file, \<open>None\<close> when none was opened.
\<close>

definition main :: "args \<Rightarrow> real \<Rightarrow> frame_in list \<Rightarrow> outcome" where
  "main a t0 frames =
     (case getattr (namespace a) ''out_csv'' of
        Inl e \<Rightarrow> \<lparr>stdout = [header], csv = None, raised = Some e\<rparr>
      | Inr v \<Rightarrow>
          (let csv_fh = (if truthy v then Some [header] else None) in
           case init_state a t0 of
             Inl e \<Rightarrow> \<lparr>stdout = [header], csv = csv_fh, raised = Some e\<rparr>
           | Inr st \<Rightarrow>
               (case run a st frames of
                  (tr, r) \<Rightarrow>
                    \<lparr>stdout = header # map line (records tr),
                     csv = map_option (\<lambda>ls. ls @ map line (records tr)) csv_fh,
                     raised = (case r of Inl e \<Rightarrow> Some e | Inr s \<Rightarrow> None)\<rparr>)))"

text \<open>How many times the tick loop runs when it is entered at time \<open>now\<close>.\<close>

definition ticks_due :: "real \<Rightarrow> state \<Rightarrow> nat" where
  "ticks_due now st = nat (\<lfloor>now\<rfloor> + 1 - next_tick st)"

text \<open>The records of one pass agree in everything but the second and the time of day.\<close>

definition same_content :: "out_record list \<Rightarrow> bool" where
  "same_content recs =
     (\<forall>r1 \<in> set recs. \<forall>r2 \<in> set recs.
        out_bpm r1 = out_bpm r2 \<and> note_tokens r1 = note_tokens r2)"

section \<open>Readings of the specification and worked inputs\<close>

text \<open>Gates one to four as \<^verbatim>\<open>main\<close> computes them, before the step block.\<close>

definition gates_1_to_4 :: "args \<Rightarrow> pyres \<Rightarrow> bool" where
  "gates_1_to_4 a res =
     prominence_gate a
       (base_valid a (norm_init_progress res) (estimate_snr res) (bpm_from_res res))
       (get_if_dict res ''power_spectrum'')"

text \<open>The step test in the words of the specification.\<close>

definition step_rejects :: "args \<Rightarrow> real \<Rightarrow> real \<Rightarrow> bool" where
  "step_rejects a raw lg =
     (let r = raw / max (1 / 1000000) lg in
      \<bar>raw - lg\<bar> > max_step_bpm a \<or> r > max_ratio a \<or> r < 1 / max_ratio a)"

text \<open>A result that holds only \<^verbatim>\<open>f_est\<close>.\<close>

definition hz_frame :: "real \<Rightarrow> pyres" where
  "hz_frame f = Dict [''f_est'' \<mapsto> PNum (Fin f)]"

text \<open>The state right after start-up at time 100.5, and a state with 15 bpm accepted at time 100.\<close>

definition fresh_state :: state where
  "fresh_state = \<lparr>q = [], q_maxlen = 5, last_good_bpm = None, last_good_t = 0, next_tick = 101\<rparr>"

definition locked_state :: state where
  "locked_state = \<lparr>q = [15], q_maxlen = 5, last_good_bpm = Some 15, last_good_t = 100, next_tick = 101\<rparr>"

definition noon :: "nat \<Rightarrow> string" where
  "noon k = ''12:00:00''"

text \<open>A spectrum whose two largest bins are 100 and 90, over a floor of 1.\<close>

definition two_peak_spectrum :: "pyfloat list" where
  "two_peak_spectrum = [Fin 1, Fin 1, Fin 1, Fin 1, Fin 1, Fin 1, Fin 1, Fin 1, Fin 100, Fin 90]"

definition two_peak_frame :: pyres where
  "two_peak_frame = Dict [''f_est'' \<mapsto> PNum (Fin (1 / 4)), ''power_spectrum'' \<mapsto> PArr two_peak_spectrum]"

text \<open>
  The shape of a value printed with two fraction digits: an optional minus sign, at least
  one digit, a point and two digits.
\<close>

definition is_digit :: "char \<Rightarrow> bool" where
  "is_digit c = (c \<in> set ''0123456789'')"

fun strip_sign :: "string \<Rightarrow> string" where
  "strip_sign [] = []"
| "strip_sign (c # cs) = (if c = CHR ''-'' then cs else c # cs)"

definition two_fraction_digits :: "string \<Rightarrow> bool" where
  "two_fraction_digits s =
     (let u = strip_sign s; n = length u in
      n \<ge> 4 \<and> list_all is_digit (take (n - 3) u) \<and> u ! (n - 3) = CHR ''.'' \<and>
      is_digit (u ! (n - 2)) \<and> is_digit (u ! (n - 1)))"

text \<open>A record whose notes hold a token that starts with \<^verbatim>\<open>init=\<close>.\<close>

definition has_init_token :: "out_record \<Rightarrow> bool" where
  "has_init_token r = list_ex (\<lambda>tok. take 5 tok = ''init='') (note_tokens r)"

text \<open>
  The values that the loop appended to its deque during a run, oldest first, read off the
  trace of the run.
\<close>

definition appended :: "(frame_eval \<times> out_record list) list \<Rightarrow> real list" where
  "appended tr =
     concat (map (\<lambda>(ev, recs).
                    if e_valid ev then (case e_raw_bpm ev of None \<Rightarrow> [] | Some v \<Rightarrow> [v]) else [])
                 tr)"

text \<open>
  Reductions of a buffer, in words: the arithmetic mean, and the upper and the lower of
  the two middle elements of the sorted values (one and the same element when the count
  is odd).
\<close>

definition arith_mean :: "real list \<Rightarrow> real" where
  "arith_mean xs = sum_list xs / real (length xs)"

definition upper_median :: "real list \<Rightarrow> real" where
  "upper_median xs = sort xs ! (length xs div 2)"

definition lower_median :: "real list \<Rightarrow> real" where
  "lower_median xs = sort xs ! ((length xs - 1) div 2)"

text \<open>
  The warm-up, quality, band and plausible-step checks of the validity gate, in the words
  of the specification, on the progress, the quality and the raw value of a frame and on
  the previous accepted value.  The prominence check is left out of this predicate.
\<close>

definition gate_checks ::
  "args \<Rightarrow> real option \<Rightarrow> real option \<Rightarrow> real option \<Rightarrow> real option \<Rightarrow> bool" where
  "gate_checks a last_good progress quality raw =
     ((case progress of None \<Rightarrow> True | Some p \<Rightarrow> p \<ge> 0.99) \<and>
      (case quality of None \<Rightarrow> True | Some s \<Rightarrow> s \<ge> snr_min a) \<and>
      (case raw of
         None \<Rightarrow> False
       | Some v \<Rightarrow>
           60 * f_low a \<le> v \<and> v \<le> 60 * f_high a \<and>
           (case last_good of None \<Rightarrow> True | Some l \<Rightarrow> \<not> step_rejects a v l)))"

text \<open>The state before each completed pass of a run, with the result that the pass received.\<close>

fun history :: "args \<Rightarrow> state \<Rightarrow> frame_in list \<Rightarrow> (state \<times> pyres) list" where
  "history a st [] = []"
| "history a st (inp # inps) =
     (case iteration a st inp of
        Inl e \<Rightarrow> []
      | Inr (st', ev, recs) \<Rightarrow> (st, fst inp) # history a st' inps)"

text \<open>
  The smoothed value is absent on an empty buffer and otherwise is the upper median or
  the arithmetic mean of the buffer, by the configured method.
\<close>

definition buffer_inv :: "args \<Rightarrow> state \<Rightarrow> bool" where
  "buffer_inv a st =
     (case last_good_bpm st of
        None \<Rightarrow> q st = []
      | Some m \<Rightarrow> q st \<noteq> [] \<and>
          m = (if smooth a = Median then upper_median (q st) else arith_mean (q st)))"

text \<open>A result whose spectrum is an object that numpy cannot read, with a reported SNR of 12.\<close>

definition opaque_spectrum_frame :: pyres where
  "opaque_spectrum_frame = Dict [''power_spectrum'' \<mapsto> PObj, ''snr'' \<mapsto> PNum (Fin 12)]"

section \<open>Properties\<close>

lemma hz_loop_find:
  "hz_loop m ks =
     (case find (coercible m) ks of
        Some k \<Rightarrow> map_option (\<lambda>v. v * 60) (safe_float (dict_get m k))
      | None \<Rightarrow> None)"
  by (induction ks) (auto simp: coercible_def split: option.splits)

lemma bpm_loop_find:
  "bpm_loop m ks =
     (case find (coercible m) ks of
        Some k \<Rightarrow> safe_float (dict_get m k)
      | None \<Rightarrow> None)"
  by (induction ks) (auto simp: coercible_def split: option.splits)

text \<open>
  C9.  \<^verbatim>\<open>bpm_from_res\<close> walks the hertz-valued keys in their fixed order and returns the
  first coercible finite value times sixty; only when none of them yields a value does it
  walk the bpm-valued keys and return the first such value as it is.  A result holding
  both \<^verbatim>\<open>f_est = 0.25\<close> and \<^verbatim>\<open>bpm = 99\<close> resolves to 15.
\<close>

theorem bpm_from_res_priority:
  "bpm_from_res (Dict m) = resolve_bpm_spec m
   \<and> bpm_from_res (Dict [''f_est'' \<mapsto> PNum (Fin 0.25), ''bpm'' \<mapsto> PNum (Fin 99)]) = Some 15"
proof
  show "bpm_from_res (Dict m) = resolve_bpm_spec m"
    by (auto simp: resolve_bpm_spec_def hz_loop_find bpm_loop_find coercible_def
             split: option.splits dest: find_Some_iff[THEN iffD1])
  show "bpm_from_res (Dict [''f_est'' \<mapsto> PNum (Fin 0.25), ''bpm'' \<mapsto> PNum (Fin 99)]) = Some 15"
    by (simp add: hz_keys_def safe_float_def dict_get_def)
qed

subsection \<open>Tick loop\<close>

lemma emit_loop_closed:
  "emit_loop a ev res now wall st printed =
     (st\<lparr>next_tick := next_tick st + int (ticks_due now st)\<rparr>,
      printed @ map (\<lambda>k. make_record a (st\<lparr>next_tick := next_tick st + int k\<rparr>) ev res now
                              (wall (length printed + k))) [0..<ticks_due now st])"
proof (induction a ev res now wall st printed rule: emit_loop.induct)
  case (1 a ev res now wall st printed)
  show ?case
  proof (cases "of_int (next_tick st) \<le> now")
    case False
    then have "\<lfloor>now\<rfloor> < next_tick st"
      by (simp add: floor_less_iff)
    then have n0: "ticks_due now st = 0"
      by (simp add: ticks_due_def)
    from False show ?thesis
      by (subst emit_loop.simps) (simp add: n0)
  next
    case True
    then have le: "next_tick st \<le> \<lfloor>now\<rfloor>"
      by (simp add: le_floor_iff)
    let ?st1 = "st\<lparr>next_tick := next_tick st + 1\<rparr>"
    have n: "ticks_due now st = Suc (ticks_due now ?st1)"
      using le by (simp add: ticks_due_def)
    have upt: "[0..<Suc (ticks_due now ?st1)] = 0 # map Suc [0..<ticks_due now ?st1]"
      by (simp add: upt_conv_Cons map_Suc_upt del: upt_Suc)
    have st0: "st\<lparr>next_tick := next_tick st\<rparr> = st" by simp
    from True "1.IH"[OF True] show ?thesis
      by (subst emit_loop.simps) (simp add: n upt o_def st0 add.assoc del: upt_Suc)
  qed
qed

lemma update_Inr:
  assumes "update a st ev now = Inr st1"
  shows "next_tick st1 = next_tick st" and "q_maxlen st1 = q_maxlen st"
    and "\<not> e_valid ev \<Longrightarrow> st1 = st"
    and "e_valid ev \<Longrightarrow> \<exists>raw m. e_raw_bpm ev = Some raw \<and>
           q st1 = deque_append (q_maxlen st) (q st) raw \<and> smoothed a (q st1) = Inr m \<and>
           last_good_bpm st1 = Some m \<and> last_good_t st1 = now"
  using assms by (auto simp: update_def Let_def split: if_splits option.splits sum.splits)

lemma iteration_Inr:
  assumes "iteration a st (res, now, wall) = Inr (st', ev, recs)"
  shows "\<exists>st1. evaluate a st res = Inr ev \<and> update a st ev now = Inr st1 \<and>
           st' = st1\<lparr>next_tick := next_tick st1 + int (ticks_due now st1)\<rparr> \<and>
           recs = map (\<lambda>k. make_record a (st1\<lparr>next_tick := next_tick st1 + int k\<rparr>) ev res now (wall k))
                    [0..<ticks_due now st1]"
  using assms by (auto simp: iteration_def emit_loop_closed split: sum.splits)

lemma make_record_unix_s [simp]: "unix_s (make_record a st ev res now t) = next_tick st"
  by (simp add: make_record_def)

lemma held_next_tick [simp]: "held a (st\<lparr>next_tick := n\<rparr>) now = held a st now"
  by (simp add: held_def)

lemma make_record_content:
  "out_bpm (make_record a (st\<lparr>next_tick := n\<rparr>) ev res now t) = out_bpm (make_record a st ev res now t')"
  "note_tokens (make_record a (st\<lparr>next_tick := n\<rparr>) ev res now t) = note_tokens (make_record a st ev res now t')"
  by (simp_all add: make_record_def)

lemma iteration_ticks:
  assumes "iteration a st (res, now, wall) = Inr (st', ev, recs)"
  shows "map unix_s recs = map (\<lambda>k. next_tick st + int k) [0..<length recs]"
    and "next_tick st' = next_tick st + int (length recs)"
    and "now < of_int (next_tick st')"
    and "\<forall>r \<in> set recs. of_int (unix_s r) \<le> now"
    and "same_content recs"
proof -
  from iteration_Inr[OF assms] obtain st1 where
    u: "update a st ev now = Inr st1" and
    st': "st' = st1\<lparr>next_tick := next_tick st1 + int (ticks_due now st1)\<rparr>" and
    recs: "recs = map (\<lambda>k. make_record a (st1\<lparr>next_tick := next_tick st1 + int k\<rparr>) ev res now (wall k))
                    [0..<ticks_due now st1]"
    by blast
  have nt: "next_tick st1 = next_tick st" using update_Inr(1)[OF u] .
  show "map unix_s recs = map (\<lambda>k. next_tick st + int k) [0..<length recs]"
    by (simp add: recs nt o_def)
  show "next_tick st' = next_tick st + int (length recs)"
    by (simp add: st' recs nt)
  show "now < of_int (next_tick st')"
  proof -
    have "\<lfloor>now\<rfloor> < next_tick st1 + int (ticks_due now st1)"
      by (simp add: ticks_due_def)
    then show ?thesis by (simp add: st' floor_less_iff)
  qed
  show "\<forall>r \<in> set recs. of_int (unix_s r) \<le> now"
  proof
    fix r assume "r \<in> set recs"
    then obtain k where k: "k < ticks_due now st1" and r: "unix_s r = next_tick st1 + int k"
      by (auto simp: recs)
    from k have "next_tick st1 + int k \<le> \<lfloor>now\<rfloor>"
      by (simp add: ticks_due_def)
    then show "of_int (unix_s r) \<le> now"
      by (simp add: r le_floor_iff)
  qed
  show "same_content recs"
    by (auto simp: same_content_def recs make_record_def)
qed

lemma records_Cons [simp]: "records ((ev, recs) # tr) = recs @ records tr"
  by (simp add: records_def)

lemma records_Nil [simp]: "records [] = []"
  by (simp add: records_def)

lemma upt_split: "[0..<m + n] = [0..<m] @ map (\<lambda>k. m + k) [0..<n]"
  by (induction n) simp_all

lemma run_ticks:
  "run a st inps = (tr, r) \<Longrightarrow>
     map unix_s (records tr) = map (\<lambda>k. next_tick st + int k) [0..<length (records tr)] \<and>
     (\<forall>st'. r = Inr st' \<longrightarrow> next_tick st' = next_tick st + int (length (records tr)))"
proof (induction inps arbitrary: st tr r)
  case Nil
  then show ?case by auto
next
  case (Cons inp inps)
  obtain res now wall where inp: "inp = (res, now, wall)" by (cases inp) auto
  show ?case
  proof (cases "iteration a st inp")
    case (Inl e)
    with Cons.prems show ?thesis by auto
  next
    case (Inr x)
    then obtain st1 ev recs where it: "iteration a st (res, now, wall) = Inr (st1, ev, recs)"
      by (cases x) (auto simp: inp)
    obtain tr1 r1 where r1: "run a st1 inps = (tr1, r1)" by (cases "run a st1 inps") auto
    from Cons.prems it r1 have tr: "tr = (ev, recs) # tr1" and r: "r = r1"
      by (auto simp: inp)
    note ih1 = Cons.IH[OF r1, THEN conjunct1] and ih2 = Cons.IH[OF r1, THEN conjunct2, rule_format]
    note t1 = iteration_ticks(1)[OF it] and t2 = iteration_ticks(2)[OF it]
    have "map unix_s (records tr) = map unix_s recs @ map unix_s (records tr1)"
      by (simp add: tr)
    also have "\<dots> = map (\<lambda>k. next_tick st + int k) [0..<length recs] @
                    map (\<lambda>k. next_tick st + int (length recs) + int k) [0..<length (records tr1)]"
      by (simp only: t1 ih1 t2)
    also have "\<dots> = map (\<lambda>k. next_tick st + int k) [0..<length recs + length (records tr1)]"
    proof -
      have "[0..<length recs + length (records tr1)] =
              [0..<length recs] @ map (\<lambda>k. length recs + k) [0..<length (records tr1)]"
        by (rule upt_split)
      then show ?thesis by (simp add: o_def add.assoc)
    qed
    finally have A: "map unix_s (records tr) = map (\<lambda>k. next_tick st + int k) [0..<length (records tr)]"
      by (simp add: tr)
    have B: "\<forall>st'. r = Inr st' \<longrightarrow> next_tick st' = next_tick st + int (length (records tr))"
      using ih2 t2 by (auto simp: tr r)
    from A B show ?thesis by blast
  qed
qed

lemma run_same_content:
  "run a st inps = (tr, r) \<Longrightarrow>
     \<forall>(ev, recs) \<in> set tr. same_content recs"
proof (induction inps arbitrary: st tr r)
  case Nil
  then show ?case by auto
next
  case (Cons inp inps)
  obtain res now wall where inp: "inp = (res, now, wall)" by (cases inp) auto
  show ?case
  proof (cases "iteration a st inp")
    case (Inl e)
    with Cons.prems show ?thesis by auto
  next
    case (Inr x)
    then obtain st1 ev recs where it: "iteration a st (res, now, wall) = Inr (st1, ev, recs)"
      by (cases x) (auto simp: inp)
    obtain tr1 r1 where r1: "run a st1 inps = (tr1, r1)" by (cases "run a st1 inps") auto
    from Cons.prems it r1 have tr: "tr = (ev, recs) # tr1"
      by (auto simp: inp)
    from Cons.IH[OF r1] iteration_ticks(5)[OF it] show ?thesis
      by (simp add: tr)
  qed
qed

text \<open>every whole second up to the time of the last frame has been emitted\<close>
lemma run_caught_up:
  "run a st inps = (tr, Inr st') \<Longrightarrow> inps \<noteq> [] \<Longrightarrow>
     fst (snd (last inps)) < of_int (next_tick st')"
proof (induction inps arbitrary: st tr)
  case Nil
  then show ?case by simp
next
  case (Cons inp inps)
  obtain res now wall where inp: "inp = (res, now, wall)" by (cases inp) auto
  show ?case
  proof (cases "iteration a st inp")
    case (Inl e)
    with Cons.prems show ?thesis by auto
  next
    case (Inr x)
    then obtain st1 ev recs where it: "iteration a st (res, now, wall) = Inr (st1, ev, recs)"
      by (cases x) (auto simp: inp)
    obtain tr1 r1 where r1: "run a st1 inps = (tr1, r1)" by (cases "run a st1 inps") auto
    from Cons.prems it r1 have r: "r1 = Inr st'" by (auto simp: inp)
    show ?thesis
    proof (cases "inps = []")
      case True
      with r1 r have "st' = st1" by simp
      with iteration_ticks(3)[OF it] True show ?thesis by (simp add: inp)
    next
      case False
      with Cons.IH[OF r1[unfolded r] False] show ?thesis by simp
    qed
  qed
qed

text \<open>no record is for a second that has not elapsed\<close>
lemma run_not_early:
  "run a st inps = (tr, r) \<Longrightarrow>
     length tr \<le> length inps \<and>
     (\<forall>i < length tr. \<forall>rc \<in> set (snd (tr ! i)). of_int (unix_s rc) \<le> fst (snd (inps ! i)))"
proof (induction inps arbitrary: st tr r)
  case Nil
  then show ?case by auto
next
  case (Cons inp inps)
  obtain res now wall where inp: "inp = (res, now, wall)" by (cases inp) auto
  show ?case
  proof (cases "iteration a st inp")
    case (Inl e)
    with Cons.prems show ?thesis by auto
  next
    case (Inr x)
    then obtain st1 ev recs where it: "iteration a st (res, now, wall) = Inr (st1, ev, recs)"
      by (cases x) (auto simp: inp)
    obtain tr1 r1 where r1: "run a st1 inps = (tr1, r1)" by (cases "run a st1 inps") auto
    from Cons.prems it r1 have tr: "tr = (ev, recs) # tr1"
      by (auto simp: inp)
    from Cons.IH[OF r1] iteration_ticks(4)[OF it] show ?thesis
      by (auto simp: tr inp nth_Cons split: nat.splits)
  qed
qed

lemma init_state_Inr:
  "init_state a t0 = Inr st0 \<Longrightarrow>
     next_tick st0 = \<lfloor>t0\<rfloor> + 1 \<and> q st0 = [] \<and> last_good_bpm st0 = None \<and>
     q_maxlen st0 = nat (smooth_window a)"
  by (auto simp: init_state_def split: if_splits)

text \<open>
  C1.  From the state made at start-up at time \<open>t0\<close>, whatever the frames and their
  arrival times: the seconds of the records printed are \<open>\<lfloor>t0\<rfloor> + 1\<close>, the first whole
  second strictly after \<open>t0\<close>, and then each next second, strictly increasing, none
  skipped and none twice; no record is printed for a second later than the time of its
  pass; after a pass every whole second up to the time of that pass has its record; and
  the records caught up in one pass agree in bpm and note content.
\<close>

theorem emitter_one_record_per_second:
  assumes "init_state a t0 = Inr st0" and "run a st0 inps = (tr, r)"
  shows "t0 < of_int (\<lfloor>t0\<rfloor> + 1) \<and> of_int (\<lfloor>t0\<rfloor> + 1) \<le> t0 + 1 \<and>
         map unix_s (records tr) = map (\<lambda>k. \<lfloor>t0\<rfloor> + 1 + int k) [0..<length (records tr)] \<and>
         sorted_wrt (<) (map unix_s (records tr)) \<and>
         (\<forall>i < length tr. \<forall>rc \<in> set (snd (tr ! i)). of_int (unix_s rc) \<le> fst (snd (inps ! i))) \<and>
         (\<forall>st'. r = Inr st' \<and> inps \<noteq> [] \<longrightarrow>
            next_tick st' = \<lfloor>t0\<rfloor> + 1 + int (length (records tr)) \<and>
            fst (snd (last inps)) < of_int (next_tick st')) \<and>
         (\<forall>(ev, recs) \<in> set tr. same_content recs)"
proof -
  have nt: "next_tick st0 = \<lfloor>t0\<rfloor> + 1" using init_state_Inr[OF assms(1)] by simp
  have A1: "t0 < of_int (\<lfloor>t0\<rfloor> + 1)"
    by linarith
  have A2: "of_int (\<lfloor>t0\<rfloor> + 1) \<le> t0 + 1"
    by simp
  have B: "map unix_s (records tr) = map (\<lambda>k. \<lfloor>t0\<rfloor> + 1 + int k) [0..<length (records tr)]"
    using run_ticks[OF assms(2)] by (simp add: nt)
  have C: "sorted_wrt (<) (map unix_s (records tr))"
    by (subst B) (simp add: sorted_wrt_map sorted_wrt_iff_nth_less)
  have D: "\<forall>i < length tr. \<forall>rc \<in> set (snd (tr ! i)). of_int (unix_s rc) \<le> fst (snd (inps ! i))"
    using run_not_early[OF assms(2)] by blast
  have E: "\<forall>st'. r = Inr st' \<and> inps \<noteq> [] \<longrightarrow>
            next_tick st' = \<lfloor>t0\<rfloor> + 1 + int (length (records tr)) \<and>
            fst (snd (last inps)) < of_int (next_tick st')"
  proof (intro allI impI, elim conjE)
    fix st' assume r: "r = Inr st'" and ne: "inps \<noteq> []"
    from run_ticks[OF assms(2)] r
    have 1: "next_tick st' = \<lfloor>t0\<rfloor> + 1 + int (length (records tr))"
      by (simp add: nt)
    from assms(2) r have "run a st0 inps = (tr, Inr st')" by simp
    from run_caught_up[OF this ne]
    have 2: "fst (snd (last inps)) < of_int (next_tick st')" .
    from 1 2 show "next_tick st' = \<lfloor>t0\<rfloor> + 1 + int (length (records tr)) \<and>
            fst (snd (last inps)) < of_int (next_tick st')" by (rule conjI)
  qed
  note F = run_same_content[OF assms(2)]
  show ?thesis by (intro conjI A1 A2 B C D E F)
qed

lemma default_args_sel:
  "hold_last_for (default_args h) = 5" "debug (default_args h) = False"
  "smooth_window (default_args h) = 5" "smooth (default_args h) = Median"
  "f_low (default_args h) = 3 / 25" "f_high (default_args h) = 7 / 10"
  "snr_min (default_args h) = 10" "max_step_bpm (default_args h) = 6"
  "max_ratio (default_args h) = 3 / 2"
  by (simp_all add: default_args_def)

lemma fresh_state_sel:
  "next_tick fresh_state = 101" "last_good_bpm fresh_state = None" "last_good_t fresh_state = 0"
  "q fresh_state = []" "q_maxlen fresh_state = 5"
  by (simp_all add: fresh_state_def)

lemma init_fresh: "init_state (default_args h) (201 / 2) = Inr fresh_state"
  by (simp add: init_state_def default_args_def fresh_state_def)

lemma evaluate_not_dict:
  "evaluate a st NotDict =
     Inr \<lparr>e_ip = Some 1, e_raw_bpm = None, e_snr = None, e_valid = False\<rparr>"
  by (simp add: evaluate_def norm_init_progress_def safe_float_def estimate_snr_def snr_body_def
      base_valid_def prominence_gate_def step_gate_def)

lemma fmt2_one: "fmt2 1 = ''1.00''"
  by (simp add: fmt2_def round_half_even_def show_nat.simps digit_char_def)

lemma run_stalled:
  "run (default_args h) fresh_state [(NotDict, 207 / 2, noon)] =
   ([(\<lparr>e_ip = Some 1, e_raw_bpm = None, e_snr = None, e_valid = False\<rparr>,
      [\<lparr>hms = ''12:00:00'', unix_s = 101, out_bpm = [], note_tokens = [''init=1.00'']\<rparr>,
       \<lparr>hms = ''12:00:00'', unix_s = 102, out_bpm = [], note_tokens = [''init=1.00'']\<rparr>,
       \<lparr>hms = ''12:00:00'', unix_s = 103, out_bpm = [], note_tokens = [''init=1.00'']\<rparr>])],
    Inr (fresh_state\<lparr>next_tick := 104\<rparr>))"
  by (simp add: iteration_def evaluate_not_dict update_def emit_loop_closed ticks_due_def
      fresh_state_sel default_args_sel make_record_def held_def debug_notes_def fmt2_one
      noon_def upt_rec)

text \<open>
  Start at 100.5 and one frame at 103.5, none before: the pass prints the records of 101,
  102 and 103.
\<close>

theorem emitter_one_record_per_second_witness:
  "init_state (default_args ''sensor'') (201 / 2) = Inr fresh_state \<and>
   map unix_s (records (fst (run (default_args ''sensor'') fresh_state [(NotDict, 207 / 2, noon)])))
     = [101, 102, 103] \<and>
   same_content (snd (hd (fst (run (default_args ''sensor'') fresh_state [(NotDict, 207 / 2, noon)]))))"
  using emitter_one_record_per_second[OF init_fresh run_stalled]
  unfolding run_stalled
  by (simp add: init_fresh upt_rec)

subsection \<open>Step gate\<close>

lemma prominence_gate_base: "prominence_gate a v ps \<Longrightarrow> v"
  by (auto simp: prominence_gate_def split: if_splits sum.splits)

lemma base_valid_raw: "base_valid a ip s raw \<Longrightarrow> \<exists>v. raw = Some v"
  by (cases raw) (auto simp: base_valid_def)

lemma step_exceeded_spec:
  "max_ratio a \<noteq> 0 \<Longrightarrow> step_exceeded a raw lg = Inr (step_rejects a raw lg)"
  by (auto simp: step_exceeded_def step_rejects_def Let_def)

text \<open>
  With a maximum ratio of zero the third test cannot be evaluated: when the first two
  tests are false the division raises.
\<close>

lemma step_exceeded_zero_ratio:
  assumes "max_ratio a = 0" and "\<not> \<bar>raw - lg\<bar> > max_step_bpm a"
    and "\<not> raw / max (1 / 1000000) lg > 0"
  shows "step_exceeded a raw lg = Inl ZeroDivisionError"
  using assms by (simp add: step_exceeded_def Let_def)

lemma step_exceeded_Inr:
  "step_exceeded a raw lg = Inr b \<Longrightarrow> b = step_rejects a raw lg"
  by (auto simp: step_exceeded_def step_rejects_def Let_def split: if_splits)

text \<open>
  C5.  For a frame that passes gates one to four, a raw value exists.  When a previous
  accepted value exists, every decision that the step block reaches is the claimed one:
  the frame is rejected exactly when the absolute step exceeds the maximum, or the ratio
  exceeds the maximum ratio, or the ratio is below its inverse; and the block reaches a
  decision whenever the maximum ratio is not zero.  When no previous value exists the
  frame is accepted.  With the defaults (step 6, ratio 1.5) and a previous value of 15,
  a raw value of 20 is accepted and a raw value of 23 is rejected.
\<close>

theorem step_gate_decides:
  assumes "gates_1_to_4 a res"
  shows "(\<exists>raw. bpm_from_res res = Some raw \<and>
            (case last_good_bpm st of
               None \<Rightarrow> (\<exists>ev. evaluate a st res = Inr ev \<and> e_valid ev)
             | Some lg \<Rightarrow>
                 (\<forall>ev. evaluate a st res = Inr ev \<longrightarrow> e_valid ev = (\<not> step_rejects a raw lg)) \<and>
                 (max_ratio a \<noteq> 0 \<longrightarrow> (\<exists>ev. evaluate a st res = Inr ev)))) \<and>
         step_gate (default_args h) True (Some 20) (Some 15) = Inr True \<and>
         step_gate (default_args h) True (Some 23) (Some 15) = Inr False"
proof -
  let ?v = "base_valid a (norm_init_progress res) (estimate_snr res) (bpm_from_res res)"
  from assms have pg: "prominence_gate a ?v (get_if_dict res ''power_spectrum'')"
    by (simp add: gates_1_to_4_def)
  then have "?v" by (rule prominence_gate_base)
  then obtain raw where raw: "bpm_from_res res = Some raw"
    using base_valid_raw by blast
  have "case last_good_bpm st of
               None \<Rightarrow> (\<exists>ev. evaluate a st res = Inr ev \<and> e_valid ev)
             | Some lg \<Rightarrow>
                 (\<forall>ev. evaluate a st res = Inr ev \<longrightarrow> e_valid ev = (\<not> step_rejects a raw lg)) \<and>
                 (max_ratio a \<noteq> 0 \<longrightarrow> (\<exists>ev. evaluate a st res = Inr ev))"
  proof (cases "last_good_bpm st")
    case None
    with pg raw show ?thesis
      by (simp add: evaluate_def Let_def step_gate_def)
  next
    case (Some lg)
    have 1: "\<forall>ev. evaluate a st res = Inr ev \<longrightarrow> e_valid ev = (\<not> step_rejects a raw lg)"
    proof (intro allI impI)
      fix ev assume "evaluate a st res = Inr ev"
      with pg raw Some obtain b where "step_exceeded a raw lg = Inr b" and "e_valid ev = (\<not> b)"
        by (auto simp: evaluate_def Let_def step_gate_def split: sum.splits)
      with step_exceeded_Inr[of a raw lg b] show "e_valid ev = (\<not> step_rejects a raw lg)"
        by simp
    qed
    have 2: "max_ratio a \<noteq> 0 \<longrightarrow> (\<exists>ev. evaluate a st res = Inr ev)"
    proof
      assume "max_ratio a \<noteq> 0"
      from step_exceeded_spec[OF this] pg raw Some show "\<exists>ev. evaluate a st res = Inr ev"
        by (simp add: evaluate_def Let_def step_gate_def)
    qed
    from 1 2 Some show ?thesis by simp
  qed
  with raw have A: "\<exists>raw. bpm_from_res res = Some raw \<and>
            (case last_good_bpm st of
               None \<Rightarrow> (\<exists>ev. evaluate a st res = Inr ev \<and> e_valid ev)
             | Some lg \<Rightarrow>
                 (\<forall>ev. evaluate a st res = Inr ev \<longrightarrow> e_valid ev = (\<not> step_rejects a raw lg)) \<and>
                 (max_ratio a \<noteq> 0 \<longrightarrow> (\<exists>ev. evaluate a st res = Inr ev)))"
    by blast
  have B: "step_gate (default_args h) True (Some 20) (Some 15) = Inr True"
    by (simp add: step_gate_def step_exceeded_def default_args_def Let_def)
  have C: "step_gate (default_args h) True (Some 23) (Some 15) = Inr False"
    by (simp add: step_gate_def step_exceeded_def default_args_def Let_def)
  show ?thesis by (intro conjI A B C)
qed

lemma da_ratio: "max_ratio (default_args h) \<noteq> 0"
  by (simp add: default_args_def)

lemma bpm_hz: "bpm_from_res (hz_frame f) = Some (f * 60)"
  by (simp add: hz_frame_def hz_keys_def safe_float_def dict_get_def)

lemma ip_hz: "norm_init_progress (hz_frame f) = Some 1"
  by (simp add: hz_frame_def norm_init_progress_def safe_float_def dict_get_def)

lemma snr_hz: "estimate_snr (hz_frame f) = None"
  by (simp add: hz_frame_def estimate_snr_def snr_body_def safe_float_def dict_get_def)

lemma ps_hz: "get_if_dict (hz_frame f) ''power_spectrum'' = PNone"
  by (simp add: hz_frame_def dict_get_def)

lemma g14: "gates_1_to_4 (default_args ''sensor'') (hz_frame (1 / 3))"
  by (simp add: gates_1_to_4_def bpm_hz ip_hz snr_hz ps_hz base_valid_def prominence_gate_def default_args_def)

theorem step_gate_decides_witness:
  "gates_1_to_4 (default_args ''sensor'') (hz_frame (1 / 3)) \<and>
   last_good_bpm locked_state = Some 15 \<and> max_ratio (default_args ''sensor'') \<noteq> 0 \<and>
   bpm_from_res (hz_frame (1 / 3)) = Some 20 \<and> \<not> step_rejects (default_args ''sensor'') 20 15 \<and>
   (\<exists>ev. evaluate (default_args ''sensor'') locked_state (hz_frame (1 / 3)) = Inr ev \<and> e_valid ev)"
proof -
  have lg: "last_good_bpm locked_state = Some 15" by (simp add: locked_state_def)
  have nr: "\<not> step_rejects (default_args ''sensor'') 20 15"
    by (simp add: step_rejects_def default_args_def Let_def)
  from step_gate_decides[OF g14, of locked_state]
  have "\<exists>ev. evaluate (default_args ''sensor'') locked_state (hz_frame (1 / 3)) = Inr ev \<and> e_valid ev"
    using da_ratio[of "''sensor''"] by (auto simp: bpm_hz lg nr)
  with da_ratio g14 lg nr show ?thesis by (simp add: bpm_hz)
qed

subsection \<open>Median\<close>

text \<open>
  C2, as the code has it.  With the median method and a buffer of an even number
  \<open>2k > 0\<close> of values, the smoothed value is the element at index \<open>k\<close> of the sorted
  buffer, the upper of the two middle elements; an accepted frame stores that element;
  for the buffer 10, 12, 14, 16 it is 14.
\<close>

theorem median_upper_middle:
  assumes "smooth a = Median" and "length xs = 2 * k" and "0 < k"
  shows "smoothed a xs = Inr (sort xs ! k) \<and>
         (update a st ev now = Inr st1 \<and> e_valid ev \<and> q st1 = xs \<longrightarrow>
            last_good_bpm st1 = Some (sort xs ! k)) \<and>
         smoothed a [10, 12, 14, 16] = Inr 14"
proof -
  have A: "smoothed a xs = Inr (sort xs ! k)"
    using assms by (simp add: smoothed_def median_of_def)
  have B: "update a st ev now = Inr st1 \<and> e_valid ev \<and> q st1 = xs \<longrightarrow>
            last_good_bpm st1 = Some (sort xs ! k)"
  proof
    assume h: "update a st ev now = Inr st1 \<and> e_valid ev \<and> q st1 = xs"
    then obtain raw m where "smoothed a (q st1) = Inr m" and "last_good_bpm st1 = Some m"
      using update_Inr(4)[of a st ev now st1] by blast
    with h A show "last_good_bpm st1 = Some (sort xs ! k)" by simp
  qed
  have C: "smoothed a [10, 12, 14, 16] = Inr 14"
    using assms(1) by (simp add: smoothed_def median_of_def)
  show ?thesis by (intro conjI A B C)
qed

theorem median_upper_middle_witness:
  "smooth (default_args ''sensor'') = Median \<and> length [10, 12, 14, 16 :: real] = 2 * 2 \<and>
   sort [10, 12, 14, 16 :: real] ! 2 = 14 \<and>
   smoothed (default_args ''sensor'') [10, 12, 14, 16] = Inr 14"
proof -
  have m: "smooth (default_args ''sensor'') = Median" by (simp add: default_args_def)
  have l: "length [10, 12, 14, 16 :: real] = 2 * 2" by simp
  have p: "(0::nat) < 2" by simp
  from median_upper_middle[OF m l p] m show ?thesis by simp
qed

text \<open>The claim as the specification words it fails: the lower middle element 12 is not returned.\<close>

theorem median_lower_middle_counterexample:
  "sort [10, 12, 14, 16 :: real] ! (length [10, 12, 14, 16 :: real] div 2 - 1) = 12 \<and>
   smoothed (default_args ''sensor'') [10, 12, 14, 16] \<noteq> Inr 12"
  by (simp add: smoothed_def median_of_def default_args_def)

subsection \<open>Prominence gate\<close>

lemma log10_100: "log 10 (100::real) = 2"
proof -
  have "log 10 ((10::real) powr 2) = 2" by (rule log_powr_cancel) simp_all
  moreover have "(10::real) powr 2 = 100" by simp
  ultimately show ?thesis by simp
qed

lemma snr_two_peak: "snr_body (PArr two_peak_spectrum) = Inr (Some 20)"
  by (simp add: snr_body_def two_peak_spectrum_def nanargmax_def Let_def mask_clear_def
      bool_index_def np_median_def py_log10_def log10_100 upt_rec)

lemma np_not_global: "''np'' \<notin> set module_globals"
  by (simp add: module_globals_def)

lemma prominence_gate_inert: "prominence_gate a v ps = v"
  by (simp add: prominence_gate_def np_not_global)

text \<open>
  C3, where the code departs from it.  The three largest bins of the two-peak spectrum
  are 1, 90 and 100; the second largest is positive and the ratio 100/90 is below the
  default minimum 1.6, so the prominence test as written would reject.  The guard
  \<^verbatim>\<open>'np' in globals()\<close> is false, the block is skipped, and the frame is accepted.
\<close>

theorem prominence_not_enforced:
  "top3 (PArr two_peak_spectrum) = Inr [Fin 1, Fin 90, Fin 100] \<and>
   prominence_low (default_args h) [Fin 1, Fin 90, Fin 100] \<and>
   evaluate (default_args h) fresh_state two_peak_frame =
     Inr \<lparr>e_ip = Some 1, e_raw_bpm = Some 15, e_snr = Some 20, e_valid = True\<rparr>"
proof -
  have A: "top3 (PArr two_peak_spectrum) = Inr [Fin 1, Fin 90, Fin 100]"
    by (simp add: top3_def two_peak_spectrum_def)
  have B: "prominence_low (default_args h) [Fin 1, Fin 90, Fin 100]"
    by (simp add: prominence_low_def default_args_def)
  have ip: "norm_init_progress two_peak_frame = Some 1"
    by (simp add: norm_init_progress_def two_peak_frame_def safe_float_def dict_get_def)
  have raw: "bpm_from_res two_peak_frame = Some 15"
    by (simp add: two_peak_frame_def hz_keys_def safe_float_def dict_get_def)
  have ps: "get_if_dict two_peak_frame ''power_spectrum'' = PArr two_peak_spectrum"
    by (simp add: two_peak_frame_def dict_get_def)
  have snr: "estimate_snr two_peak_frame = Some 20"
    by (simp add: estimate_snr_def ps snr_two_peak)
  have bv: "base_valid (default_args h) (Some 1) (Some 20) (Some 15)"
    by (simp add: base_valid_def default_args_def)
  have C: "evaluate (default_args h) fresh_state two_peak_frame =
     Inr \<lparr>e_ip = Some 1, e_raw_bpm = Some 15, e_snr = Some 20, e_valid = True\<rparr>"
    by (simp add: evaluate_def ip raw snr bv prominence_gate_inert step_gate_def fresh_state_def)
  show ?thesis by (intro conjI A B C)
qed

subsection \<open>Secondary output\<close>

text \<open>
  C4, where the code departs from it.  The option is declared as \<^verbatim>\<open>--out\<close>, so the
  namespace has the attribute \<^verbatim>\<open>out\<close>; \<^verbatim>\<open>main\<close> reads \<^verbatim>\<open>args.out_csv\<close>.  Whatever the
  options, also with an output path given, the program prints the header on standard
  output and ends with AttributeError: no file is opened and no record is written.
\<close>

theorem out_csv_attribute_error:
  "getattr (namespace (a\<lparr>out := Some path\<rparr>)) ''out'' = Inr (AStr path) \<and>
   main (a\<lparr>out := Some path\<rparr>) t0 frames =
     \<lparr>stdout = [header], csv = None, raised = Some AttributeError\<rparr> \<and>
   main a t0 frames = \<lparr>stdout = [header], csv = None, raised = Some AttributeError\<rparr>"
  by (simp add: main_def getattr_def namespace_def)


subsection \<open>Hold policy and note tokens\<close>

lemma digit_char_is_digit: "d < 10 \<Longrightarrow> is_digit (digit_char d)"
  unfolding is_digit_def digit_char_def by (rule nth_mem) simp

lemma show_nat_digits: "show_nat n \<noteq> [] \<and> list_all is_digit (show_nat n)"
proof (induction n rule: show_nat.induct)
  case (1 n)
  show ?case
  proof (cases "n < 10")
    case True
    then show ?thesis
      by (subst (1 2) show_nat.simps) (simp add: digit_char_is_digit)
  next
    case False
    with "1.IH" show ?thesis
      by (subst (1 2) show_nat.simps) (simp add: digit_char_is_digit)
  qed
qed

lemma strip_sign_digits:
  assumes "ds \<noteq> []" and "list_all is_digit ds"
  shows "strip_sign (ds @ rest) = ds @ rest" and "strip_sign (''-'' @ ds @ rest) = ds @ rest"
proof -
  from assms obtain c cs where ds: "ds = c # cs" and c: "is_digit c"
    by (cases ds) auto
  from c have "c \<noteq> CHR ''-''" by (auto simp: is_digit_def)
  then show "strip_sign (ds @ rest) = ds @ rest" by (simp add: ds)
  show "strip_sign (''-'' @ ds @ rest) = ds @ rest" by simp
qed

lemma fmt2_shape: "two_fraction_digits (fmt2 x)"
proof -
  define n where "n = round_half_even (\<bar>x\<bar> * 100)"
  define ds where "ds = show_nat (n div 100)"
  define d1 where "d1 = digit_char (n div 10 mod 10)"
  define d2 where "d2 = digit_char (n mod 10)"
  have ds: "ds \<noteq> []" "list_all is_digit ds"
    using show_nat_digits[of "n div 100"] by (simp_all add: ds_def)
  have d: "is_digit d1" "is_digit d2"
    by (simp_all add: d1_def d2_def digit_char_is_digit)
  have f: "fmt2 x = (if x < 0 then ''-'' else []) @ ds @ ''.'' @ [d1, d2]"
    by (simp add: fmt2_def Let_def n_def ds_def d1_def d2_def)
  have s: "strip_sign (fmt2 x) = ds @ ''.'' @ [d1, d2]"
    using strip_sign_digits[OF ds, of "''.'' @ [d1, d2]"] by (simp add: f)
  have len: "length (ds @ ''.'' @ [d1, d2]) - 3 = length ds" by simp
  have pos: "Suc 0 \<le> length ds" using ds(1) by (cases ds) simp_all
  show ?thesis
    unfolding two_fraction_digits_def s Let_def len
    using ds d pos by (simp add: nth_append)
qed

lemma fmt2_nonempty: "fmt2 x \<noteq> []"
  by (simp add: fmt2_def Let_def)

lemma norm_init_progress_Some: "\<exists>v. norm_init_progress res = Some v"
  by (simp add: norm_init_progress_def split: option.splits)


lemma evaluate_Inr:
  assumes "evaluate a st res = Inr ev"
  shows "e_ip ev = norm_init_progress res" and "e_raw_bpm ev = bpm_from_res res"
    and "e_snr ev = estimate_snr res"
  using assms by (auto simp: evaluate_def Let_def split: sum.splits)

lemma locked_state_sel:
  "next_tick locked_state = 101" "last_good_bpm locked_state = Some 15"
  "last_good_t locked_state = 100" "q locked_state = [15]" "q_maxlen locked_state = 5"
  by (simp_all add: locked_state_def)

lemma fmt2_fifteen: "fmt2 15 = ''15.00''"
  by (simp add: fmt2_def round_half_even_def show_nat.simps digit_char_def)

text \<open>
  C6.  For every record of a pass: the bpm field is not empty exactly when a smoothed
  value exists and the time of the pass is at most the hold duration after the last
  acceptance; when it is not empty it is that smoothed value printed with two fraction
  digits; a rejected frame leaves the smoothed value and the acceptance time as they
  were, and an accepted one sets the acceptance time to the time of the pass.  With a
  hold of 5 and 15 bpm accepted at time 100, the field is 15.00 at 104.9 and empty at
  105.1.
\<close>

theorem bpm_field_held_iff:
  assumes "iteration a st (res, now, wall) = Inr (st', ev, recs)" and "rc \<in> set recs"
  shows "(out_bpm rc \<noteq> [] \<longleftrightarrow>
            last_good_bpm st' \<noteq> None \<and> now - last_good_t st' \<le> hold_last_for a) \<and>
         (out_bpm rc \<noteq> [] \<longrightarrow>
            (\<exists>v. last_good_bpm st' = Some v \<and> out_bpm rc = fmt2 v) \<and>
            two_fraction_digits (out_bpm rc)) \<and>
         (\<not> e_valid ev \<longrightarrow>
            last_good_bpm st' = last_good_bpm st \<and> last_good_t st' = last_good_t st) \<and>
         (e_valid ev \<longrightarrow> last_good_t st' = now) \<and>
         out_bpm (make_record (default_args h) locked_state ev res (1049 / 10) t) = ''15.00'' \<and>
         out_bpm (make_record (default_args h) locked_state ev res (1051 / 10) t) = []"
proof -
  from iteration_Inr[OF assms(1)] obtain st1 where
    u: "update a st ev now = Inr st1" and
    st': "st' = st1\<lparr>next_tick := next_tick st1 + int (ticks_due now st1)\<rparr>" and
    recs: "recs = map (\<lambda>k. make_record a (st1\<lparr>next_tick := next_tick st1 + int k\<rparr>) ev res now (wall k))
                    [0..<ticks_due now st1]"
    by blast
  from assms(2) obtain k where
    rc: "rc = make_record a (st1\<lparr>next_tick := next_tick st1 + int k\<rparr>) ev res now (wall k)"
    by (auto simp: recs)
  have lg: "last_good_bpm st' = last_good_bpm st1" and lt: "last_good_t st' = last_good_t st1"
    by (simp_all add: st')
  have ob: "out_bpm rc =
      (if last_good_bpm st1 \<noteq> None \<and> now - last_good_t st1 \<le> hold_last_for a
       then fmt2 (the (last_good_bpm st1)) else [])"
    by (auto simp: rc make_record_def held_def)
  have A: "out_bpm rc \<noteq> [] \<longleftrightarrow>
            last_good_bpm st' \<noteq> None \<and> now - last_good_t st' \<le> hold_last_for a"
    by (simp add: ob lg lt fmt2_nonempty)
  have B: "out_bpm rc \<noteq> [] \<longrightarrow>
            (\<exists>v. last_good_bpm st' = Some v \<and> out_bpm rc = fmt2 v) \<and>
            two_fraction_digits (out_bpm rc)"
    by (auto simp: ob lg lt fmt2_shape split: if_splits)
  have C: "\<not> e_valid ev \<longrightarrow>
            last_good_bpm st' = last_good_bpm st \<and> last_good_t st' = last_good_t st"
    using update_Inr(3)[OF u] by (auto simp: lg lt)
  have D: "e_valid ev \<longrightarrow> last_good_t st' = now"
    using update_Inr(4)[OF u] by (auto simp: lt)
  have E: "out_bpm (make_record (default_args h) locked_state ev res (1049 / 10) t) = ''15.00''"
    by (simp add: make_record_def held_def locked_state_sel default_args_sel fmt2_fifteen)
  have F: "out_bpm (make_record (default_args h) locked_state ev res (1051 / 10) t) = []"
    by (simp add: make_record_def held_def locked_state_sel default_args_sel)
  show ?thesis by (intro conjI A B C D E F)
qed

lemma iteration_locked:
  "iteration (default_args h) locked_state (NotDict, 1049 / 10, noon) =
     Inr (locked_state\<lparr>next_tick := 105\<rparr>,
          \<lparr>e_ip = Some 1, e_raw_bpm = None, e_snr = None, e_valid = False\<rparr>,
          map (\<lambda>s. \<lparr>hms = ''12:00:00'', unix_s = s, out_bpm = ''15.00'',
                     note_tokens = [''held=1'', ''init=1.00'']\<rparr>) [101, 102, 103, 104])"
  by (simp add: iteration_def evaluate_not_dict update_def emit_loop_closed ticks_due_def
      locked_state_sel default_args_sel make_record_def held_def debug_notes_def fmt2_one
      fmt2_fifteen noon_def upt_rec)

theorem bpm_field_held_iff_witness:
  "iteration (default_args ''sensor'') locked_state (NotDict, 1049 / 10, noon) =
     Inr (locked_state\<lparr>next_tick := 105\<rparr>,
          \<lparr>e_ip = Some 1, e_raw_bpm = None, e_snr = None, e_valid = False\<rparr>,
          map (\<lambda>s. \<lparr>hms = ''12:00:00'', unix_s = s, out_bpm = ''15.00'',
                     note_tokens = [''held=1'', ''init=1.00'']\<rparr>) [101, 102, 103, 104]) \<and>
   two_fraction_digits ''15.00'' \<and>
   last_good_t (locked_state\<lparr>next_tick := 105\<rparr>) = 100"
proof -
  let ?rc = "\<lparr>hms = ''12:00:00'', unix_s = 101, out_bpm = ''15.00'',
               note_tokens = [''held=1'', ''init=1.00'']\<rparr>"
  have m: "?rc \<in> set (map (\<lambda>s. \<lparr>hms = ''12:00:00'', unix_s = s, out_bpm = ''15.00'',
                     note_tokens = [''held=1'', ''init=1.00'']\<rparr>) [101, 102, 103, 104])"
    by simp
  have tf: "two_fraction_digits ''15.00''"
    using bpm_field_held_iff[OF iteration_locked m, where h = "''sensor''" and t = "[]"]
    by (simp add: fmt2_fifteen)
  then show ?thesis by (simp add: iteration_locked locked_state_sel)
qed

text \<open>
  C10.  \<^verbatim>\<open>norm_init_progress\<close> always returns a number, 1.0 when the progress field
  is absent or does not coerce; so in every pass the progress that the warm-up gate
  tests is a number, never the missing value, and every record of the pass has an
  \<^verbatim>\<open>init=\<close> token among its notes.
\<close>

theorem init_token_always:
  "(\<exists>v. norm_init_progress res = Some v) \<and>
   (safe_float (get_if_dict res ''init_progress'') = None \<longrightarrow> norm_init_progress res = Some 1) \<and>
   (iteration a st (res, now, wall) = Inr (st', ev, recs) \<longrightarrow>
      e_ip ev = norm_init_progress res \<and> e_ip ev \<noteq> None \<and> list_all has_init_token recs)"
proof -
  have A: "\<exists>v. norm_init_progress res = Some v"
    by (rule norm_init_progress_Some)
  have B: "safe_float (get_if_dict res ''init_progress'') = None \<longrightarrow> norm_init_progress res = Some 1"
    by (simp add: norm_init_progress_def)
  have C: "iteration a st (res, now, wall) = Inr (st', ev, recs) \<longrightarrow>
      e_ip ev = norm_init_progress res \<and> e_ip ev \<noteq> None \<and> list_all has_init_token recs"
  proof
    assume it: "iteration a st (res, now, wall) = Inr (st', ev, recs)"
    from iteration_Inr[OF it] obtain st1 where
      e: "evaluate a st res = Inr ev" and
      recs: "recs = map (\<lambda>k. make_record a (st1\<lparr>next_tick := next_tick st1 + int k\<rparr>) ev res now (wall k))
                    [0..<ticks_due now st1]"
      by blast
    from A obtain v where v: "norm_init_progress res = Some v" by blast
    have ip: "e_ip ev = Some v" using evaluate_Inr(1)[OF e] v by simp
    have "has_init_token (make_record a s ev res now t)" for s t
      by (simp add: has_init_token_def make_record_def ip)
    then have "list_all has_init_token recs"
      by (simp add: recs list_all_iff)
    with ip v show "e_ip ev = norm_init_progress res \<and> e_ip ev \<noteq> None \<and> list_all has_init_token recs"
      by simp
  qed
  show ?thesis by (intro conjI A B C)
qed

theorem init_token_always_witness:
  "norm_init_progress NotDict = Some 1 \<and>
   iteration (default_args ''sensor'') fresh_state (NotDict, 207 / 2, noon) =
     Inr (fresh_state\<lparr>next_tick := 104\<rparr>,
          \<lparr>e_ip = Some 1, e_raw_bpm = None, e_snr = None, e_valid = False\<rparr>,
          map (\<lambda>s. \<lparr>hms = ''12:00:00'', unix_s = s, out_bpm = [],
                     note_tokens = [''init=1.00'']\<rparr>) [101, 102, 103]) \<and>
   list_all has_init_token
     (map (\<lambda>s. \<lparr>hms = ''12:00:00'', unix_s = s, out_bpm = [],
                 note_tokens = [''init=1.00'']\<rparr>) [101, 102, 103])"
proof -
  have it: "iteration (default_args ''sensor'') fresh_state (NotDict, 207 / 2, noon) =
     Inr (fresh_state\<lparr>next_tick := 104\<rparr>,
          \<lparr>e_ip = Some 1, e_raw_bpm = None, e_snr = None, e_valid = False\<rparr>,
          map (\<lambda>s. \<lparr>hms = ''12:00:00'', unix_s = s, out_bpm = [],
                     note_tokens = [''init=1.00'']\<rparr>) [101, 102, 103])"
    by (simp add: iteration_def evaluate_not_dict update_def emit_loop_closed ticks_due_def
      fresh_state_sel default_args_sel make_record_def held_def debug_notes_def fmt2_one
      noon_def upt_rec)
  from init_token_always[of NotDict "default_args ''sensor''" fresh_state "207 / 2" noon
      "fresh_state\<lparr>next_tick := 104\<rparr>"
      "\<lparr>e_ip = Some 1, e_raw_bpm = None, e_snr = None, e_valid = False\<rparr>"
      "map (\<lambda>s. \<lparr>hms = ''12:00:00'', unix_s = s, out_bpm = [],
                     note_tokens = [''init=1.00'']\<rparr>) [101, 102, 103]"] it
  show ?thesis by simp
qed


subsection \<open>Quality estimator\<close>

lemma mask_clear_replicate:
  "mask_clear (replicate n True) lo hi = map (\<lambda>i. \<not> (lo \<le> int i \<and> int i < hi)) [0..<n]"
  by (rule nth_equalityI) (auto simp: mask_clear_def)

lemma bool_index_map:
  "bool_index xs (map P [0..<length xs]) = map ((!) xs) (filter P [0..<length xs])"
proof (induction xs rule: rev_induct)
  case Nil
  then show ?case by (simp add: bool_index_def)
next
  case (snoc x xs)
  have "map ((!) (xs @ [x])) (filter P [0..<length xs]) = map ((!) xs) (filter P [0..<length xs])"
    by (rule map_cong) (auto simp: nth_append)
  with snoc show ?case
    by (simp add: bool_index_def)
qed

lemma argmax_first_props:
  "xs \<noteq> [] \<Longrightarrow> argmax_first xs < length xs \<and> (\<forall>i < length xs. xs ! i \<le> xs ! argmax_first xs)"
proof (induction xs rule: argmax_first.induct)
  case 1
  then show ?case by simp
next
  case (2 x)
  then show ?case by simp
next
  case (3 x y ys)
  let ?xs = "y # ys"
  from 3 have ih: "argmax_first ?xs < length ?xs" "\<forall>i < length ?xs. ?xs ! i \<le> ?xs ! argmax_first ?xs"
    by simp_all
  show ?case
  proof (cases "?xs ! argmax_first ?xs \<le> x")
    case True
    have "\<forall>i < length (x # ?xs). (x # ?xs) ! i \<le> x"
    proof (intro allI impI)
      fix i assume "i < length (x # ?xs)"
      then show "(x # ?xs) ! i \<le> x"
        using ih(2) True by (cases i) (auto intro: order_trans)
    qed
    with True show ?thesis by (simp add: Let_def)
  next
    case False
    have "\<forall>i < length (x # ?xs). (x # ?xs) ! i \<le> ?xs ! argmax_first ?xs"
    proof (intro allI impI)
      fix i assume "i < length (x # ?xs)"
      then show "(x # ?xs) ! i \<le> ?xs ! argmax_first ?xs"
        using ih(2) False by (cases i) auto
    qed
    with False ih(1) show ?thesis by (simp add: Let_def)
  qed
qed

lemma noise_mask:
  assumes "rs \<noteq> []"
  shows "filter (\<lambda>v. v > 0)
           (bool_index rs
              (mask_clear (replicate (length rs) True)
                 (max 0 (int (argmax_first rs) - 2))
                 (min (int (length rs)) (int (argmax_first rs) + 3)))) = noise_set rs"
proof -
  let ?p = "argmax_first rs"
  have p: "?p < length rs" using argmax_first_props[OF assms] by simp
  have "filter (\<lambda>i. \<not> (max 0 (int ?p - 2) \<le> int i \<and> int i < min (int (length rs)) (int ?p + 3)))
          [0..<length rs] =
        filter (\<lambda>i. i + 2 < ?p \<or> ?p + 2 < i) [0..<length rs]"
    by (rule filter_cong) auto
  then show ?thesis
    by (simp add: mask_clear_replicate bool_index_map noise_set_def Let_def)
qed

lemma np_median_pos:
  assumes "xs \<noteq> []" and "\<forall>v \<in> set xs. 0 < v"
  shows "0 < np_median xs"
proof -
  let ?s = "sort xs"
  have n: "0 < length ?s" using assms(1) by simp
  have pos: "\<And>i. i < length ?s \<Longrightarrow> 0 < ?s ! i"
  proof -
    fix i assume "i < length ?s"
    then have "?s ! i \<in> set ?s" by (rule nth_mem)
    then show "0 < ?s ! i" using assms(2) by simp
  qed
  have a: "0 < ?s ! (length ?s div 2)" using n by (intro pos) simp
  have "length ?s div 2 < length ?s" using n by simp
  then have "length ?s div 2 - 1 < length ?s" by (rule less_imp_diff_less)
  then have b: "0 < ?s ! (length ?s div 2 - 1)" by (rule pos)
  from a b show ?thesis by (simp add: np_median_def Let_def)
qed

lemma peak_pos:
  assumes "list_all isfinite ps" and "list_ex pf_gt0 ps"
  shows "0 < map the_fin ps ! argmax_first (map the_fin ps)"
proof -
  from assms(2) obtain v where v: "v \<in> set ps" "pf_gt0 v" by (auto simp: list_ex_iff)
  from assms(1) v(1) have "isfinite v" by (simp add: list_all_iff)
  with v(2) have vp: "0 < the_fin v" by (cases v) auto
  from v(1) obtain i where i: "i < length ps" "ps ! i = v" by (auto simp: in_set_conv_nth)
  have ne: "map the_fin ps \<noteq> []" using v(1) by auto
  let ?rs = "map the_fin ps"
  from argmax_first_props[OF ne]
  have mx: "\<forall>i < length ?rs. ?rs ! i \<le> ?rs ! argmax_first ?rs" by (rule conjunct2)
  have li: "i < length ?rs" using i(1) by simp
  from mx li have le: "?rs ! i \<le> ?rs ! argmax_first ?rs" by blast
  have "?rs ! i = the_fin v" using i by simp
  with le have "the_fin v \<le> ?rs ! argmax_first ?rs" by (simp only:)
  with vp show ?thesis by (rule less_le_trans)
qed

lemma snr_body_array:
  "snr_body (PArr ps) =
     Inr (if qualifies ps \<and> noise_set (map the_fin ps) \<noteq> []
          then Some (10 * log 10 (map the_fin ps ! argmax_first (map the_fin ps) /
                                  np_median (noise_set (map the_fin ps))))
          else None)"
proof (cases "qualifies ps")
  case False
  then show ?thesis by (auto simp: snr_body_def qualifies_def)
next
  case True
  let ?rs = "map the_fin ps"
  from True have ne: "?rs \<noteq> []" and fin: "list_all isfinite ps" and ex: "list_ex pf_gt0 ps"
    by (auto simp: qualifies_def)
  note nm = noise_mask[OF ne]
  show ?thesis
  proof (cases "noise_set ?rs = []")
    case True
    with \<open>qualifies ps\<close> ne nm show ?thesis
      by (simp add: snr_body_def qualifies_def nanargmax_def Let_def)
  next
    case False
    have "\<forall>v \<in> set (noise_set ?rs). 0 < v" by (simp add: noise_set_def Let_def)
    from np_median_pos[OF False this] peak_pos[OF fin ex]
    have "0 < ?rs ! argmax_first ?rs / np_median (noise_set ?rs)" by simp
    then have lg: "py_log10 (?rs ! argmax_first ?rs / np_median (noise_set ?rs)) =
                 Inr (log 10 (?rs ! argmax_first ?rs / np_median (noise_set ?rs)))"
      by (simp add: py_log10_def)
    from \<open>qualifies ps\<close> ne False show ?thesis
      unfolding snr_body_def
      by (simp add: qualifies_def nanargmax_def Let_def nm[simplified] lg[simplified])
  qed
qed

lemma snr_body_other:
  "snr_body PNone = Inr None" "snr_body (PBool b) = Inr None" "snr_body (PNum v) = Inr None"
  "snr_body PObj = Inl TypeError"
  by (simp_all add: snr_body_def)

text \<open>
  C7.  The quality that a pass computes is the one the specification describes: for a
  spectrum of more than eight bins, all finite, one of them positive, and a non-empty
  noise set (the positive values at the indices more than two bins away from the first
  index of the maximum), it is ten times the decimal logarithm of the peak over the
  median of the noise set; in every other case it is the reported field, coerced, or
  unknown.  An exception inside the computation gives the fallback, and with an array
  for a spectrum the computation raises none.
\<close>

theorem quality_estimate_spec:
  "estimate_snr res = quality_spec res \<and>
   (\<forall>e. snr_body (get_if_dict res ''power_spectrum'') = Inl e \<longrightarrow>
        estimate_snr res = safe_float (isdict_and_get res ''snr'')) \<and>
   (\<forall>ps. snr_body (PArr ps) \<noteq> Inl e)"
proof -
  have A: "estimate_snr res = quality_spec res"
    by (cases "get_if_dict res ''power_spectrum''")
       (simp_all add: estimate_snr_def quality_spec_def snr_body_other snr_body_array Let_def)
  have B: "\<forall>e. snr_body (get_if_dict res ''power_spectrum'') = Inl e \<longrightarrow>
        estimate_snr res = safe_float (isdict_and_get res ''snr'')"
    by (simp add: estimate_snr_def)
  have C: "\<forall>ps. snr_body (PArr ps) \<noteq> Inl e"
    by (simp add: snr_body_array)
  show ?thesis by (intro conjI A B C)
qed


lemma estimate_two_peak: "estimate_snr two_peak_frame = Some 20"
  by (simp add: estimate_snr_def two_peak_frame_def dict_get_def snr_two_peak)

theorem quality_estimate_spec_witness:
  "snr_body (get_if_dict opaque_spectrum_frame ''power_spectrum'') = Inl TypeError \<and>
   estimate_snr opaque_spectrum_frame = Some 12 \<and>
   quality_spec two_peak_frame = Some 20"
proof -
  have r: "snr_body (get_if_dict opaque_spectrum_frame ''power_spectrum'') = Inl TypeError"
    by (simp add: opaque_spectrum_frame_def dict_get_def snr_body_def)
  have f: "safe_float (isdict_and_get opaque_spectrum_frame ''snr'') = Some 12"
    by (simp add: opaque_spectrum_frame_def dict_get_def safe_float_def)
  from quality_estimate_spec[where res = opaque_spectrum_frame and e = TypeError]
  have "\<forall>e. snr_body (get_if_dict opaque_spectrum_frame ''power_spectrum'') = Inl e \<longrightarrow>
          estimate_snr opaque_spectrum_frame = safe_float (isdict_and_get opaque_spectrum_frame ''snr'')"
    by (rule conjunct2[THEN conjunct1])
  with r have "estimate_snr opaque_spectrum_frame = safe_float (isdict_and_get opaque_spectrum_frame ''snr'')"
    by blast
  with f have a: "estimate_snr opaque_spectrum_frame = Some 12" by simp
  from quality_estimate_spec[where res = two_peak_frame and e = TypeError]
  have "estimate_snr two_peak_frame = quality_spec two_peak_frame"
    by (rule conjunct1)
  with estimate_two_peak have b: "quality_spec two_peak_frame = Some 20" by simp
  from r a b show ?thesis by simp
qed

subsection \<open>Buffer and smoothed value\<close>

lemma deque_append_drop:
  "length xs \<le> w \<Longrightarrow> deque_append w xs x = drop (length (xs @ [x]) - w) (xs @ [x])"
proof (cases "length xs < w")
  case True
  then show ?thesis by (simp add: deque_append_def Let_def)
next
  case False
  assume "length xs \<le> w"
  with False have l: "length xs = w" by simp
  have "tl (xs @ [x]) = drop (Suc 0) (xs @ [x])" by (simp only: drop_Suc drop_0)
  with l show ?thesis by (simp add: deque_append_def Let_def)
qed

lemma drop_window:
  "drop (length (drop (length ys - w) ys @ zs) - w) (drop (length ys - w) ys @ zs) =
   drop (length (ys @ zs) - w) (ys @ zs)"
proof (cases "length ys \<le> w")
  case True
  then show ?thesis by simp
next
  case False
  then have "length (drop (length ys - w) ys) = w" by simp
  then have d2: "length (drop (length ys - w) ys @ zs) - w = length zs" by simp
  have "drop (length (ys @ zs) - w) (ys @ zs) = drop (length zs + (length ys - w)) (ys @ zs)"
    using False by (simp add: add.commute)
  also have "\<dots> = drop (length zs) (drop (length ys - w) (ys @ zs))"
    by (simp only: drop_drop)
  also have "\<dots> = drop (length zs) (drop (length ys - w) ys @ zs)"
    by simp
  finally show ?thesis by (simp only: d2)
qed

lemma smoothed_Inr:
  "smoothed a xs = Inr m \<Longrightarrow>
     xs \<noteq> [] \<and> m = (if smooth a = Median then sort xs ! (length xs div 2)
                       else sum_list xs / real (length xs))"
  by (auto simp: smoothed_def median_of_def mean_of_def Let_def split: if_splits)

lemma emit_keeps:
  assumes "iteration a st (res, now, wall) = Inr (st', ev, recs)"
  shows "\<exists>st1. update a st ev now = Inr st1 \<and> q st' = q st1 \<and> q_maxlen st' = q_maxlen st1 \<and>
           last_good_bpm st' = last_good_bpm st1 \<and> last_good_t st' = last_good_t st1"
  using iteration_Inr[OF assms] by auto

lemma iteration_buffer:
  assumes it: "iteration a st (res, now, wall) = Inr (st', ev, recs)"
    and len: "length (q st) \<le> q_maxlen st" and inv: "buffer_inv a st"
  shows "q_maxlen st' = q_maxlen st"
    and "q st' = drop (length (q st @ appended [(ev, recs)]) - q_maxlen st) (q st @ appended [(ev, recs)])"
    and "buffer_inv a st'"
    and "\<not> e_valid ev \<Longrightarrow> q st' = q st \<and> last_good_bpm st' = last_good_bpm st \<and> last_good_t st' = last_good_t st"
proof -
  from emit_keeps[OF it] obtain st1 where
    u: "update a st ev now = Inr st1" and k: "q st' = q st1" "q_maxlen st' = q_maxlen st1"
      "last_good_bpm st' = last_good_bpm st1" "last_good_t st' = last_good_t st1"
    by blast
  show "q_maxlen st' = q_maxlen st" using update_Inr(2)[OF u] k by simp
  show rej: "\<not> e_valid ev \<Longrightarrow> q st' = q st \<and> last_good_bpm st' = last_good_bpm st \<and> last_good_t st' = last_good_t st"
    using update_Inr(3)[OF u] k by simp
  show "q st' = drop (length (q st @ appended [(ev, recs)]) - q_maxlen st) (q st @ appended [(ev, recs)])"
  proof (cases "e_valid ev")
    case False
    with rej len show ?thesis by (simp add: appended_def)
  next
    case True
    from update_Inr(4)[OF u True] obtain raw m where
      "e_raw_bpm ev = Some raw" "q st1 = deque_append (q_maxlen st) (q st) raw"
      by blast
    with True k len show ?thesis
      by (simp add: appended_def deque_append_drop)
  qed
  show "buffer_inv a st'"
  proof (cases "e_valid ev")
    case False
    from rej[OF False] have e: "q st' = q st" "last_good_bpm st' = last_good_bpm st"
      by simp_all
    from inv show ?thesis by (simp only: buffer_inv_def e)
  next
    case True
    from update_Inr(4)[OF u True] obtain raw m where
      "smoothed a (q st1) = Inr m" "last_good_bpm st1 = Some m"
      by blast
    with smoothed_Inr[of a "q st1" m] k show ?thesis
      by (simp add: buffer_inv_def upper_median_def arith_mean_def)
  qed
qed

lemma appended_Cons: "appended ((ev, recs) # tr) = appended [(ev, recs)] @ appended tr"
  by (simp add: appended_def)

lemma run_buffer:
  "run a st inps = (tr, Inr st') \<Longrightarrow> length (q st) \<le> q_maxlen st \<Longrightarrow> buffer_inv a st \<Longrightarrow>
     q_maxlen st' = q_maxlen st \<and>
     q st' = drop (length (q st @ appended tr) - q_maxlen st) (q st @ appended tr) \<and>
     buffer_inv a st'"
proof (induction inps arbitrary: st tr)
  case Nil
  then show ?case by (auto simp: appended_def)
next
  case (Cons inp inps)
  obtain res now wall where inp: "inp = (res, now, wall)" by (cases inp) auto
  show ?case
  proof (cases "iteration a st inp")
    case (Inl e)
    with Cons.prems show ?thesis by auto
  next
    case (Inr x)
    then obtain st1 ev recs where it: "iteration a st (res, now, wall) = Inr (st1, ev, recs)"
      by (cases x) (auto simp: inp)
    obtain tr1 r1 where r1: "run a st1 inps = (tr1, r1)" by (cases "run a st1 inps") auto
    from Cons.prems(1) it r1 have tr: "tr = (ev, recs) # tr1" and r: "r1 = Inr st'"
      by (auto simp: inp)
    note b = iteration_buffer[OF it Cons.prems(2) Cons.prems(3)]
    let ?w = "q_maxlen st"
    let ?ys = "q st @ appended [(ev, recs)]"
    have len1: "length (q st1) \<le> q_maxlen st1"
      by (simp add: b(1) b(2))
    from Cons.IH[OF r1[unfolded r] len1 b(3)]
    have ih: "q_maxlen st' = ?w"
      "q st' = drop (length (q st1 @ appended tr1) - ?w) (q st1 @ appended tr1)"
      "buffer_inv a st'"
      by (simp_all add: b(1))
    have "q st' = drop (length (drop (length ?ys - ?w) ?ys @ appended tr1) - ?w)
                       (drop (length ?ys - ?w) ?ys @ appended tr1)"
      using ih(2) by (simp only: b(2))
    also have "\<dots> = drop (length (?ys @ appended tr1) - ?w) (?ys @ appended tr1)"
      by (rule drop_window)
    finally have "q st' = drop (length (q st @ appended tr) - ?w) (q st @ appended tr)"
      by (simp add: tr appended_Cons[of ev recs tr1])
    with ih(1) ih(3) show ?thesis by simp
  qed
qed

lemma set_deque_append: "set (deque_append w xs x) \<subseteq> insert x (set xs)"
proof -
  have "set (tl (xs @ [x])) \<subseteq> set (xs @ [x])"
    by (cases "xs @ [x]") auto
  then show ?thesis by (auto simp: deque_append_def Let_def)
qed

lemma evaluate_valid_checks:
  assumes "evaluate a st res = Inr ev" and "e_valid ev"
  shows "gate_checks a (last_good_bpm st) (norm_init_progress res) (estimate_snr res)
           (bpm_from_res res)"
proof -
  let ?bv = "base_valid a (norm_init_progress res) (estimate_snr res) (bpm_from_res res)"
  from assms have sg: "step_gate a ?bv (bpm_from_res res) (last_good_bpm st) = Inr True"
    by (auto simp: evaluate_def Let_def prominence_gate_inert split: sum.splits)
  then have bv: ?bv
    by (auto simp: step_gate_def split: if_splits option.splits sum.splits)
  then obtain raw where raw: "bpm_from_res res = Some raw"
    using base_valid_raw by blast
  have step: "case last_good_bpm st of None \<Rightarrow> True | Some l \<Rightarrow> \<not> step_rejects a raw l"
  proof (cases "last_good_bpm st")
    case None
    then show ?thesis by simp
  next
    case (Some l)
    with sg raw bv have "step_exceeded a raw l = Inr False"
      by (auto simp: step_gate_def split: if_splits sum.splits)
    from step_exceeded_Inr[OF this] Some show ?thesis by simp
  qed
  from bv raw step show ?thesis
    by (simp add: gate_checks_def base_valid_def)
qed

lemma iteration_new_value:
  assumes it: "iteration a st (res, now, wall) = Inr (st', ev, recs)" and v: "v \<in> set (q st')"
  shows "v \<in> set (q st) \<or>
         (bpm_from_res res = Some v \<and>
          gate_checks a (last_good_bpm st) (norm_init_progress res) (estimate_snr res) (Some v))"
proof (cases "e_valid ev")
  case False
  from emit_keeps[OF it] obtain st1 where u: "update a st ev now = Inr st1" and k: "q st' = q st1"
    by blast
  from update_Inr(3)[OF u False] k v show ?thesis by simp
next
  case True
  from iteration_Inr[OF it] have e: "evaluate a st res = Inr ev" by blast
  from emit_keeps[OF it] obtain st1 where u: "update a st ev now = Inr st1" and k: "q st' = q st1"
    by blast
  from update_Inr(4)[OF u True] obtain raw where
    r: "e_raw_bpm ev = Some raw" and qq: "q st1 = deque_append (q_maxlen st) (q st) raw"
    by blast
  from v k qq set_deque_append[of "q_maxlen st" "q st" raw] have "v = raw \<or> v \<in> set (q st)"
    by auto
  then show ?thesis
  proof
    assume "v \<in> set (q st)"
    then show ?thesis by simp
  next
    assume "v = raw"
    with r evaluate_Inr(2)[OF e] have b: "bpm_from_res res = Some v" by simp
    from evaluate_valid_checks[OF e True] b show ?thesis by simp
  qed
qed

lemma run_buffer_checked:
  "run a st inps = (tr, Inr st') \<Longrightarrow> v \<in> set (q st') \<Longrightarrow>
     v \<in> set (q st) \<or>
     (\<exists>(s, res) \<in> set (history a st inps).
        bpm_from_res res = Some v \<and>
        gate_checks a (last_good_bpm s) (norm_init_progress res) (estimate_snr res) (Some v))"
proof (induction inps arbitrary: st tr)
  case Nil
  then show ?case by simp
next
  case (Cons inp inps)
  obtain res now wall where inp: "inp = (res, now, wall)" by (cases inp) auto
  show ?case
  proof (cases "iteration a st inp")
    case (Inl e)
    with Cons.prems show ?thesis by auto
  next
    case (Inr x)
    then obtain st1 ev recs where it: "iteration a st (res, now, wall) = Inr (st1, ev, recs)"
      by (cases x) (auto simp: inp)
    obtain tr1 r1 where r1: "run a st1 inps = (tr1, r1)" by (cases "run a st1 inps") auto
    from Cons.prems(1) it r1 have r: "r1 = Inr st'" by (auto simp: inp)
    have h: "history a st (inp # inps) = (st, res) # history a st1 inps"
      using it by (simp add: inp)
    from Cons.IH[OF r1[unfolded r] Cons.prems(2)]
    show ?thesis
    proof
      assume "v \<in> set (q st1)"
      from iteration_new_value[OF it this] show ?thesis
        by (auto simp: h simp del: history.simps)
    next
      assume "\<exists>(s, res) \<in> set (history a st1 inps).
        bpm_from_res res = Some v \<and>
        gate_checks a (last_good_bpm s) (norm_init_progress res) (estimate_snr res) (Some v)"
      then show ?thesis by (auto simp: h simp del: history.simps)
    qed
  qed
qed

text \<open>
  C8, as the code has it.  After any number of passes from start-up: every value in the
  buffer is the raw value of a frame of the run that passed the warm-up, quality, band
  and plausible-step checks against the smoothed value of its time; the buffer is the
  last \<^verbatim>\<open>smooth_window\<close> values that the loop appended, in order; the smoothed value is
  absent while the buffer is empty and otherwise is the arithmetic mean or, for the
  median method, the upper median (index \<open>length div 2\<close> of the sorted buffer) of the
  buffer's contents; and a pass whose frame is rejected, or fails one of those checks,
  leaves the buffer, the smoothed value and the time of the last acceptance unchanged.
\<close>

theorem buffer_invariants:
  assumes "init_state a t0 = Inr st0" and "run a st0 inps = (tr, Inr st)"
  shows "(\<forall>v \<in> set (q st). \<exists>(s, res) \<in> set (history a st0 inps).
            bpm_from_res res = Some v \<and>
            gate_checks a (last_good_bpm s) (norm_init_progress res) (estimate_snr res) (Some v)) \<and>
         q st = drop (length (appended tr) - nat (smooth_window a)) (appended tr) \<and>
         length (q st) \<le> nat (smooth_window a) \<and>
         (case last_good_bpm st of
            None \<Rightarrow> q st = []
          | Some m \<Rightarrow> q st \<noteq> [] \<and>
              m = (if smooth a = Median then upper_median (q st) else arith_mean (q st))) \<and>
         (iteration a st (res, now, wall) = Inr (st', ev, recs) \<and>
          (\<not> e_valid ev \<or>
           \<not> gate_checks a (last_good_bpm st) (norm_init_progress res) (estimate_snr res)
               (bpm_from_res res)) \<longrightarrow>
            q st' = q st \<and> last_good_bpm st' = last_good_bpm st \<and> last_good_t st' = last_good_t st)"
proof -
  from init_state_Inr[OF assms(1)] have i: "q st0 = []" "last_good_bpm st0 = None"
    "q_maxlen st0 = nat (smooth_window a)" by simp_all
  have inv0: "buffer_inv a st0" by (simp add: buffer_inv_def i)
  have len0: "length (q st0) \<le> q_maxlen st0" by (simp add: i)
  from run_buffer[OF assms(2) len0 inv0]
  have w: "q_maxlen st = nat (smooth_window a)"
    and A: "q st = drop (length (appended tr) - nat (smooth_window a)) (appended tr)"
    and inv: "buffer_inv a st"
    by (simp_all add: i)
  have G: "\<forall>v \<in> set (q st). \<exists>(s, res) \<in> set (history a st0 inps).
            bpm_from_res res = Some v \<and>
            gate_checks a (last_good_bpm s) (norm_init_progress res) (estimate_snr res) (Some v)"
  proof
    fix v assume "v \<in> set (q st)"
    from run_buffer_checked[OF assms(2) this]
    show "\<exists>(s, res) \<in> set (history a st0 inps).
            bpm_from_res res = Some v \<and>
            gate_checks a (last_good_bpm s) (norm_init_progress res) (estimate_snr res) (Some v)"
      by (simp add: i)
  qed
  have C: "length (q st) \<le> nat (smooth_window a)"
    by (subst A) simp
  have D: "case last_good_bpm st of
            None \<Rightarrow> q st = []
          | Some m \<Rightarrow> q st \<noteq> [] \<and>
              m = (if smooth a = Median then upper_median (q st) else arith_mean (q st))"
    using inv by (simp add: buffer_inv_def)
  have E: "iteration a st (res, now, wall) = Inr (st', ev, recs) \<and>
          (\<not> e_valid ev \<or>
           \<not> gate_checks a (last_good_bpm st) (norm_init_progress res) (estimate_snr res)
               (bpm_from_res res)) \<longrightarrow>
            q st' = q st \<and> last_good_bpm st' = last_good_bpm st \<and> last_good_t st' = last_good_t st"
  proof
    assume h: "iteration a st (res, now, wall) = Inr (st', ev, recs) \<and>
          (\<not> e_valid ev \<or>
           \<not> gate_checks a (last_good_bpm st) (norm_init_progress res) (estimate_snr res)
               (bpm_from_res res))"
    then have it: "iteration a st (res, now, wall) = Inr (st', ev, recs)" by (rule conjunct1)
    from iteration_Inr[OF it] have e: "evaluate a st res = Inr ev" by blast
    have nv: "\<not> e_valid ev"
    proof
      assume "e_valid ev"
      from evaluate_valid_checks[OF e this] h \<open>e_valid ev\<close> show False by simp
    qed
    have len: "length (q st) \<le> q_maxlen st" using C w by simp
    from iteration_buffer(4)[OF it len inv nv]
    show "q st' = q st \<and> last_good_bpm st' = last_good_bpm st \<and> last_good_t st' = last_good_t st" .
  qed
  show ?thesis by (intro conjI G A C D E)
qed

lemma evaluate_first_hz:
  "last_good_bpm st = None \<Longrightarrow>
   evaluate (default_args h) st (hz_frame (1 / 4)) =
     Inr \<lparr>e_ip = Some 1, e_raw_bpm = Some 15, e_snr = None, e_valid = True\<rparr>"
  by (simp add: evaluate_def bpm_hz ip_hz snr_hz ps_hz base_valid_def prominence_gate_inert
      step_gate_def default_args_sel)

lemma run_accept_reject:
  "run (default_args h) fresh_state [(hz_frame (1 / 4), 203 / 2, noon), (NotDict, 205 / 2, noon)] =
   ([(\<lparr>e_ip = Some 1, e_raw_bpm = Some 15, e_snr = None, e_valid = True\<rparr>,
      [\<lparr>hms = ''12:00:00'', unix_s = 101, out_bpm = ''15.00'',
        note_tokens = [''held=1'', ''init=1.00'']\<rparr>]),
     (\<lparr>e_ip = Some 1, e_raw_bpm = None, e_snr = None, e_valid = False\<rparr>,
      [\<lparr>hms = ''12:00:00'', unix_s = 102, out_bpm = ''15.00'',
        note_tokens = [''held=1'', ''init=1.00'']\<rparr>])],
    Inr \<lparr>q = [15], q_maxlen = 5, last_good_bpm = Some 15, last_good_t = 203 / 2, next_tick = 103\<rparr>)"
  by (simp add: iteration_def evaluate_first_hz evaluate_not_dict update_def deque_append_def
      smoothed_def median_of_def emit_loop_closed ticks_due_def fresh_state_def default_args_sel
      make_record_def held_def in_band_def debug_notes_def fmt2_one fmt2_fifteen noon_def upt_rec)

text \<open>
  One frame of 15 bpm accepted at 101.5 and a pass without a result at 102.5: the buffer
  holds 15, which is its own upper median, and 15 is the raw value of a frame of the run
  that passed the four checks.
\<close>

theorem buffer_invariants_witness:
  "init_state (default_args ''sensor'') (201 / 2) = Inr fresh_state \<and>
   (\<exists>tr st. run (default_args ''sensor'') fresh_state
              [(hz_frame (1 / 4), 203 / 2, noon), (NotDict, 205 / 2, noon)] = (tr, Inr st) \<and>
            appended tr = [15] \<and> q st = [15] \<and> last_good_bpm st = Some (upper_median (q st))) \<and>
   (\<exists>(s, res) \<in> set (history (default_args ''sensor'') fresh_state
                        [(hz_frame (1 / 4), 203 / 2, noon), (NotDict, 205 / 2, noon)]).
      bpm_from_res res = Some 15 \<and>
      gate_checks (default_args ''sensor'') (last_good_bpm s) (norm_init_progress res)
        (estimate_snr res) (Some 15))"
proof -
  let ?tr = "[(\<lparr>e_ip = Some 1, e_raw_bpm = Some 15, e_snr = None, e_valid = True\<rparr>,
      [\<lparr>hms = ''12:00:00'', unix_s = 101, out_bpm = ''15.00'',
        note_tokens = [''held=1'', ''init=1.00'']\<rparr>]),
     (\<lparr>e_ip = Some 1, e_raw_bpm = None, e_snr = None, e_valid = False\<rparr>,
      [\<lparr>hms = ''12:00:00'', unix_s = 102, out_bpm = ''15.00'',
        note_tokens = [''held=1'', ''init=1.00'']\<rparr>])]"
  let ?st = "\<lparr>q = [15], q_maxlen = 5, last_good_bpm = Some 15, last_good_t = 203 / 2, next_tick = 103\<rparr>"
  have acc: "appended ?tr = [15]" by (simp add: appended_def)
  have um: "upper_median [15] = 15" by (simp add: upper_median_def)
  from buffer_invariants[OF init_fresh run_accept_reject, of "''sensor''"]
  have "\<forall>v \<in> set (q ?st). \<exists>(s, res) \<in> set (history (default_args ''sensor'') fresh_state
                        [(hz_frame (1 / 4), 203 / 2, noon), (NotDict, 205 / 2, noon)]).
            bpm_from_res res = Some v \<and>
            gate_checks (default_args ''sensor'') (last_good_bpm s) (norm_init_progress res)
              (estimate_snr res) (Some v)"
    by (rule conjunct1)
  then have g: "\<exists>(s, res) \<in> set (history (default_args ''sensor'') fresh_state
                        [(hz_frame (1 / 4), 203 / 2, noon), (NotDict, 205 / 2, noon)]).
      bpm_from_res res = Some 15 \<and>
      gate_checks (default_args ''sensor'') (last_good_bpm s) (norm_init_progress res)
        (estimate_snr res) (Some 15)"
    by simp
  have r: "\<exists>tr st. run (default_args ''sensor'') fresh_state
              [(hz_frame (1 / 4), 203 / 2, noon), (NotDict, 205 / 2, noon)] = (tr, Inr st) \<and>
            appended tr = [15] \<and> q st = [15] \<and> last_good_bpm st = Some (upper_median (q st))"
    using acc um run_accept_reject[of "''sensor''"] by simp
  from init_fresh[of "''sensor''"] r g show ?thesis by (intro conjI)
qed

lemma evaluate_ten:
  "last_good_bpm st = None \<Longrightarrow>
   evaluate (default_args h) st (hz_frame (1 / 6)) =
     Inr \<lparr>e_ip = Some 1, e_raw_bpm = Some 10, e_snr = None, e_valid = True\<rparr>"
  by (simp add: evaluate_def bpm_hz ip_hz snr_hz ps_hz base_valid_def prominence_gate_inert
      step_gate_def default_args_sel)

lemma evaluate_twelve:
  "last_good_bpm st = Some 10 \<Longrightarrow>
   evaluate (default_args h) st (hz_frame (1 / 5)) =
     Inr \<lparr>e_ip = Some 1, e_raw_bpm = Some 12, e_snr = None, e_valid = True\<rparr>"
  by (simp add: evaluate_def bpm_hz ip_hz snr_hz ps_hz base_valid_def prominence_gate_inert
      step_gate_def step_exceeded_def Let_def default_args_sel)

lemma evaluate_two_peak:
  "last_good_bpm st = None \<Longrightarrow>
   evaluate (default_args h) st two_peak_frame =
     Inr \<lparr>e_ip = Some 1, e_raw_bpm = Some 15, e_snr = Some 20, e_valid = True\<rparr>"
proof -
  assume lg: "last_good_bpm st = None"
  have ip: "norm_init_progress two_peak_frame = Some 1"
    by (simp add: norm_init_progress_def two_peak_frame_def safe_float_def dict_get_def)
  have raw: "bpm_from_res two_peak_frame = Some 15"
    by (simp add: two_peak_frame_def hz_keys_def safe_float_def dict_get_def)
  have bv: "base_valid (default_args h) (Some 1) (Some 20) (Some 15)"
    by (simp add: base_valid_def default_args_def)
  show ?thesis
    by (simp add: evaluate_def ip raw estimate_two_peak bv prominence_gate_inert step_gate_def lg)
qed

lemma run_ten_twelve:
  "snd (run (default_args h) fresh_state
          [(hz_frame (1 / 6), 203 / 2, noon), (hz_frame (1 / 5), 205 / 2, noon)]) =
   Inr \<lparr>q = [10, 12], q_maxlen = 5, last_good_bpm = Some 12, last_good_t = 205 / 2, next_tick = 103\<rparr>"
  by (simp add: iteration_def evaluate_ten evaluate_twelve update_def deque_append_def
      smoothed_def median_of_def emit_loop_closed ticks_due_def fresh_state_def default_args_sel)

lemma run_two_peak:
  "snd (run (default_args h) fresh_state [(two_peak_frame, 203 / 2, noon)]) =
   Inr \<lparr>q = [15], q_maxlen = 5, last_good_bpm = Some 15, last_good_t = 203 / 2, next_tick = 102\<rparr>"
  by (simp add: iteration_def evaluate_two_peak update_def deque_append_def
      smoothed_def median_of_def emit_loop_closed ticks_due_def fresh_state_def default_args_sel)

text \<open>
  The claim as the specification words it fails twice.  After frames of 10 and 12 bpm
  the buffer is 10, 12 and the smoothed value is 12: neither the lower middle element 10,
  which the specification takes for the median, nor the conventional median 11.  After
  the two-peak frame the buffer holds 15, the value of a frame whose largest bin is less
  than the prominence minimum times the second largest.
\<close>

theorem buffer_invariants_counterexample:
  "snd (run (default_args ''sensor'') fresh_state
          [(hz_frame (1 / 6), 203 / 2, noon), (hz_frame (1 / 5), 205 / 2, noon)]) =
     Inr \<lparr>q = [10, 12], q_maxlen = 5, last_good_bpm = Some 12, last_good_t = 205 / 2,
           next_tick = 103\<rparr> \<and>
   lower_median [10, 12] = 10 \<and> np_median [10, 12] = 11 \<and>
   Some (12 :: real) \<noteq> Some (lower_median [10, 12]) \<and>
   snd (run (default_args ''sensor'') fresh_state [(two_peak_frame, 203 / 2, noon)]) =
     Inr \<lparr>q = [15], q_maxlen = 5, last_good_bpm = Some 15, last_good_t = 203 / 2,
           next_tick = 102\<rparr> \<and>
   top3 (PArr two_peak_spectrum) = Inr [Fin 1, Fin 90, Fin 100] \<and>
   prominence_low (default_args ''sensor'') [Fin 1, Fin 90, Fin 100]"
proof -
  have A: "lower_median [10, 12] = 10" by (simp add: lower_median_def)
  have B: "np_median [10, 12] = 11" by (simp add: np_median_def)
  have C: "Some (12 :: real) \<noteq> Some (lower_median [10, 12])" by (simp add: A)
  have D: "top3 (PArr two_peak_spectrum) = Inr [Fin 1, Fin 90, Fin 100]"
    by (simp add: top3_def two_peak_spectrum_def)
  have E: "prominence_low (default_args ''sensor'') [Fin 1, Fin 90, Fin 100]"
    by (simp add: prominence_low_def default_args_def)
  show ?thesis by (intro conjI run_ten_twelve A B C run_two_peak D E)
qed


end
